theory Spec2Isabelle
  imports Main "HOL-Library.AList" "HOL-Library.Sublist"
begin

section \<open>Python strings\<close>

text \<open>
  A Python \<open>str\<close> is modelled as a \<open>string\<close> whose characters are the code points
  below 256 (Latin-1). On these, \<open>str.lower\<close> maps one character to one character and
  \<open>str.isspace\<close> holds for the twelve code points listed in \<open>is_space\<close>.
\<close>

definition is_space :: "char \<Rightarrow> bool" where
  "is_space c =
     (let n = (of_char c :: nat)
      in (9 \<le> n \<and> n \<le> 13) \<or> (28 \<le> n \<and> n \<le> 32) \<or> n = 133 \<or> n = 160)"

definition lower_char :: "char \<Rightarrow> char" where
  "lower_char c =
     (let n = (of_char c :: nat)
      in if (65 \<le> n \<and> n \<le> 90) \<or> (192 \<le> n \<and> n \<le> 222 \<and> n \<noteq> 215)
         then char_of (n + 32) else c)"

text \<open>\<open>s.lower()\<close>\<close>

definition str_lower :: "string \<Rightarrow> string" where
  "str_lower s = map lower_char s"

text \<open>\<open>s.split()\<close>: the maximal runs of non-whitespace characters, in order.\<close>

fun split_from :: "string \<Rightarrow> string \<Rightarrow> string list" where
  "split_from w [] = (if w = [] then [] else [w])"
| "split_from w (c # cs) =
     (if is_space c then (if w = [] then split_from [] cs else w # split_from [] cs)
      else split_from (w @ [c]) cs)"

definition str_split :: "string \<Rightarrow> string list" where
  "str_split s = split_from [] s"

text \<open>\<open>sep.join(xs)\<close>\<close>

fun str_join :: "string \<Rightarrow> string list \<Rightarrow> string" where
  "str_join sep [] = []"
| "str_join sep [x] = x"
| "str_join sep (x # y # ys) = x @ sep @ str_join sep (y # ys)"

text \<open>\<open>k in text\<close> on strings: \<open>k\<close> occurs in \<open>text\<close> as a contiguous substring.\<close>

fun str_in :: "string \<Rightarrow> string \<Rightarrow> bool" where
  "str_in k [] = (k = [])"
| "str_in k (c # cs) = (prefix k (c # cs) \<or> str_in k cs)"

text \<open>
  \<open>text.count(k)\<close>: the number of non-overlapping occurrences of \<open>k\<close>, found from
  the left; for the empty \<open>k\<close> Python answers \<open>len(text) + 1\<close>.
\<close>

fun count_from :: "string \<Rightarrow> string \<Rightarrow> nat" where
  "count_from k [] = 0"
| "count_from k (c # cs) =
     (if prefix k (c # cs) then Suc (count_from k (drop (length k - 1) cs))
      else count_from k cs)"

definition str_count :: "string \<Rightarrow> string \<Rightarrow> nat" where
  "str_count text k = (if k = [] then length text + 1 else count_from k text)"

section \<open>Helpers of \<open>report.py\<close>\<close>

text \<open>
  An answer is what \<open>normalize\<close> may receive: nothing (\<open>None\<close>), a string, or a list
  of fragments.
\<close>

datatype answer = NoText | Text string | Fragments "string list"

fun normalize_text :: "answer \<Rightarrow> string" where
  "normalize_text NoText = []"
| "normalize_text (Text s) = (if s = [] then [] else str_lower s)"
| "normalize_text (Fragments fs) =
     (if fs = [] then [] else str_lower (str_join '' '' fs))"

definition contains_any :: "string \<Rightarrow> string list \<Rightarrow> bool" where
  "contains_any text keywords = list_ex (\<lambda>k. str_in k text) keywords"

section \<open>Dictionaries\<close>

text \<open>
  A Python \<open>dict\<close> keeps its keys in insertion order, so it is an association list
  with distinct keys: storing under a present key replaces the value in place, storing
  under a new key appends (\<open>AList.update\<close>).
\<close>

type_synonym 'v dict = "(string \<times> 'v) list"

datatype error = IndexError | KeyError string | CollaboratorError string

text \<open>\<open>{k: 0 for k in ks}\<close>\<close>

definition zero_dict :: "string list \<Rightarrow> nat dict" where
  "zero_dict ks = fold (\<lambda>k d. AList.update k 0 d) ks []"

text \<open>\<open>d[k] += n\<close>, which raises \<open>KeyError\<close> when \<open>k\<close> is not a key.\<close>

definition dict_add :: "string \<Rightarrow> nat \<Rightarrow> nat dict \<Rightarrow> error + nat dict" where
  "dict_add k n d =
     (case map_of d k of
        None \<Rightarrow> Inl (KeyError k)
      | Some v \<Rightarrow> Inr (AList.update k (v + n) d))"

text \<open>\<open>dict(items)\<close>\<close>

definition dict_of_items :: "(string \<times> 'v) list \<Rightarrow> 'v dict" where
  "dict_of_items xs = fold (\<lambda>(k, v) d. AList.update k v d) xs []"

section \<open>Percentages: binary64 arithmetic\<close>

text \<open>
  \<open>int((c / total) * 100)\<close> divides two integers into a float, multiplies the float
  by 100 and truncates. Both float operations return the binary64 number nearest to the
  exact result, ties going to the even significand. A finite positive binary64 number
  is \<open>m * 2 ^ e\<close> with a significand \<open>m\<close> of 53 bits; it is kept here as an exact
  fraction of two integers. The values that occur (quotients and products of list
  lengths) are far inside the exponent range, so the exponent is not bounded.
\<close>

function bit_length :: "int \<Rightarrow> nat" where
  "bit_length n = (if n \<le> 0 then 0 else Suc (bit_length (n div 2)))"
  by pat_completeness auto
termination
  by (relation "measure nat") auto

declare bit_length.simps [simp del]

text \<open>The integer nearest to \<open>a / b\<close>, ties to even.\<close>

definition round_half_even :: "int \<Rightarrow> int \<Rightarrow> int" where
  "round_half_even a b =
     (let q = a div b; r = a mod b
      in if 2 * r < b then q
         else if b < 2 * r then q + 1
         else if even q then q else q + 1)"

text \<open>
  The binary64 number nearest to \<open>a / b\<close> (for \<open>a \<ge> 0\<close> and \<open>b > 0\<close>), as a
  fraction. The exponent \<open>e\<close> is chosen so that
  \<open>2 ^ 52 \<le> (a / b) / 2 ^ e < 2 ^ 53\<close>.
\<close>

definition fl_round :: "int \<Rightarrow> int \<Rightarrow> int \<times> int" where
  "fl_round a b =
     (if a = 0 then (0, 1)
      else
        let e0 = int (bit_length a) - int (bit_length b) - 53;
            a1 = (if e0 < 0 then a * 2 ^ nat (- e0) else a);
            b1 = (if e0 < 0 then b else b * 2 ^ nat e0);
            e = (if b1 * 2 ^ 53 \<le> a1 then e0 + 1 else e0);
            b2 = (if b1 * 2 ^ 53 \<le> a1 then 2 * b1 else b1);
            m = round_half_even a1 b2
        in if e < 0 then (m, 2 ^ nat (- e)) else (m * 2 ^ nat e, 1))"

text \<open>
  \<open>c / n\<close> on two counts, \<open>x * k\<close> on a float and an integer, and \<open>int(x)\<close> on a
  float that is not negative.
\<close>

definition float_div :: "nat \<Rightarrow> nat \<Rightarrow> int \<times> int" where
  "float_div c n = fl_round (int c) (int n)"

definition float_mul :: "int \<times> int \<Rightarrow> int \<Rightarrow> int \<times> int" where
  "float_mul x k = fl_round (fst x * k) (snd x)"

definition float_to_int :: "int \<times> int \<Rightarrow> nat" where
  "float_to_int x = nat (fst x div snd x)"

text \<open>\<open>int((c / total_answers) * 100)\<close>\<close>

definition percent :: "nat \<Rightarrow> nat \<Rightarrow> nat" where
  "percent c n = float_to_int (float_mul (float_div c n) 100)"

section \<open>The scorer \<open>analyze_answers\<close>\<close>

record counters =
  brand_counts :: "nat dict"
  brand_hit_answers :: nat
  persona_counts :: "nat dict"
  topic_counts :: "nat dict"

record report =
  brand_visibility :: nat
  brand_mentions :: "nat dict"
  persona_visibility :: "nat dict"
  topic_visibility :: "nat dict"

text \<open>
  The loop over \<open>all_brands\<close> for one answer; the state is \<open>brand_counts\<close> and the
  flag \<open>brand_found\<close>.
\<close>

fun brand_loop ::
  "string \<Rightarrow> string list \<Rightarrow> nat dict \<times> bool \<Rightarrow> error + nat dict \<times> bool" where
  "brand_loop text [] st = Inr st"
| "brand_loop text (b # bs) (bc, found) =
     (let bl = str_lower b
      in if str_in bl text
         then (case dict_add b (str_count text bl) bc of
                 Inl e \<Rightarrow> Inl e
               | Inr bc' \<Rightarrow> brand_loop text bs (bc', True))
         else brand_loop text bs (bc, found))"

text \<open>
  The keyword list of a persona. \<open>p.split()[0]\<close> raises \<open>IndexError\<close> when the name
  has no word.
\<close>

definition persona_keywords :: "string \<Rightarrow> error + string list" where
  "persona_keywords p =
     (case str_split p of
        [] \<Rightarrow> Inl IndexError
      | w # _ \<Rightarrow>
          Inr [str_lower p, str_lower w, ''strategy'', ''roadmap'', ''architecture'',
               ''planning'', ''analysis'', ''decision''])"

fun persona_loop :: "string \<Rightarrow> string list \<Rightarrow> nat dict \<Rightarrow> error + nat dict" where
  "persona_loop text [] pc = Inr pc"
| "persona_loop text (p # ps) pc =
     (case persona_keywords p of
        Inl e \<Rightarrow> Inl e
      | Inr persona_kws \<Rightarrow>
          if contains_any text persona_kws
          then (case dict_add p 1 pc of
                  Inl e \<Rightarrow> Inl e
                | Inr pc' \<Rightarrow> persona_loop text ps pc')
          else persona_loop text ps pc)"

definition topic_keywords :: "string \<Rightarrow> string list" where
  "topic_keywords t = take 4 (str_split (str_lower t))"

fun topic_loop :: "string \<Rightarrow> string list \<Rightarrow> nat dict \<Rightarrow> error + nat dict" where
  "topic_loop text [] tc = Inr tc"
| "topic_loop text (t # ts) tc =
     (if contains_any text (topic_keywords t)
      then (case dict_add t 1 tc of
              Inl e \<Rightarrow> Inl e
            | Inr tc' \<Rightarrow> topic_loop text ts tc')
      else topic_loop text ts tc)"

text \<open>The body of \<open>for ans in answers\<close>.\<close>

definition answer_step ::
  "string list \<Rightarrow> string list \<Rightarrow> string list \<Rightarrow> answer \<Rightarrow> counters \<Rightarrow> error + counters" where
  "answer_step all_brands personas topics ans st =
     (let text = normalize_text ans
      in case brand_loop text all_brands (brand_counts st, False) of
           Inl e \<Rightarrow> Inl e
         | Inr (bc, brand_found) \<Rightarrow>
             (case persona_loop text personas (persona_counts st) of
                Inl e \<Rightarrow> Inl e
              | Inr pc \<Rightarrow>
                  (case topic_loop text topics (topic_counts st) of
                     Inl e \<Rightarrow> Inl e
                   | Inr tc \<Rightarrow>
                       Inr \<lparr>brand_counts = bc,
                            brand_hit_answers =
                              (if brand_found then brand_hit_answers st + 1
                               else brand_hit_answers st),
                            persona_counts = pc,
                            topic_counts = tc\<rparr>)))"

fun answers_loop ::
  "string list \<Rightarrow> string list \<Rightarrow> string list \<Rightarrow> answer list \<Rightarrow> counters \<Rightarrow> error + counters" where
  "answers_loop all_brands personas topics [] st = Inr st"
| "answers_loop all_brands personas topics (ans # rest) st =
     (case answer_step all_brands personas topics ans st of
        Inl e \<Rightarrow> Inl e
      | Inr st' \<Rightarrow> answers_loop all_brands personas topics rest st')"

text \<open>The counters before the loop, and the whole loop.\<close>

definition initial_counters :: "string list \<Rightarrow> string list \<Rightarrow> string list \<Rightarrow> counters" where
  "initial_counters all_brands personas topics =
     \<lparr>brand_counts = zero_dict all_brands,
      brand_hit_answers = 0,
      persona_counts = zero_dict personas,
      topic_counts = zero_dict topics\<rparr>"

definition count_answers ::
  "answer list \<Rightarrow> string \<Rightarrow> string list \<Rightarrow> string list \<Rightarrow> string list \<Rightarrow> error + counters" where
  "count_answers answers brand competitors personas topics =
     (let all_brands = brand # competitors
      in answers_loop all_brands personas topics answers
           (initial_counters all_brands personas topics))"

text \<open>
  \<open>sorted(items, key=lambda x: x[1], reverse=True)\<close>: a stable sort, largest count
  first.
\<close>

definition sorted_desc :: "nat dict \<Rightarrow> (string \<times> nat) list" where
  "sorted_desc items = sort_key (\<lambda>x. - int (snd x)) items"

text \<open>\<open>{k: int((c / total) * 100) for k, c in d.items() if c > 0}\<close>\<close>

definition visibility :: "nat \<Rightarrow> nat dict \<Rightarrow> nat dict" where
  "visibility n d =
     dict_of_items (map (\<lambda>(k, c). (k, percent c n)) (filter (\<lambda>(k, c). 0 < c) d))"

text \<open>The returned dictionary.\<close>

definition build_report :: "nat \<Rightarrow> counters \<Rightarrow> report" where
  "build_report total_answers st =
     \<lparr>brand_visibility = percent (brand_hit_answers st) total_answers,
      brand_mentions = dict_of_items (sorted_desc (brand_counts st)),
      persona_visibility = visibility total_answers (persona_counts st),
      topic_visibility = visibility total_answers (topic_counts st)\<rparr>"

definition analyze_answers ::
  "answer list \<Rightarrow> string \<Rightarrow> string list \<Rightarrow> string list \<Rightarrow> string list \<Rightarrow> error + report" where
  "analyze_answers answers brand competitors personas topics =
     (let total_answers = (if length answers = 0 then 1 else length answers)
      in case count_answers answers brand competitors personas topics of
           Inl e \<Rightarrow> Inl e
         | Inr st \<Rightarrow> Inr (build_report total_answers st))"

section \<open>The orchestrator \<open>generate_report\<close>\<close>

text \<open>
  A prompt is a plain string or a dictionary; of a dictionary only the entries under
  \<open>"model"\<close> and \<open>"prompt"\<close> are read, and either may be missing.
\<close>

datatype prompt = Tagged "string option" "string option" | Plain string

text \<open>The payload dictionary, by its six recognised keys; \<open>None\<close> is an absent key.\<close>

record payload =
  p_brand :: "string option"
  p_competitors :: "string list option"
  p_personas :: "string list option"
  p_topics :: "string list option"
  p_prompts :: "prompt list option"
  p_models :: "string list option"

text \<open>\<open>payload.get(key, default)\<close>\<close>

definition get_default :: "'a option \<Rightarrow> 'a \<Rightarrow> 'a" where
  "get_default v d = (case v of None \<Rightarrow> d | Some x \<Rightarrow> x)"

text \<open>
  A \<open>defaultdict(list)\<close>: \<open>dd_get\<close> is \<open>d.get(k, [])\<close>, and \<open>dd_append\<close> is
  \<open>d[k].append(v)\<close>, which creates the key when it is new.
\<close>

definition dd_get :: "'v list dict \<Rightarrow> string \<Rightarrow> 'v list" where
  "dd_get d k = (case map_of d k of None \<Rightarrow> [] | Some vs \<Rightarrow> vs)"

definition dd_append :: "string \<Rightarrow> 'v \<Rightarrow> 'v list dict \<Rightarrow> 'v list dict" where
  "dd_append k v d = AList.update k (dd_get d k @ [v]) d"

text \<open>Grouping the prompts by model: the loop \<open>for p in prompts\<close>.\<close>

fun group_prompts ::
  "prompt list \<Rightarrow> string list \<Rightarrow> string list dict \<Rightarrow> error + string list dict" where
  "group_prompts [] models pbm = Inr pbm"
| "group_prompts (Tagged mo po # rest) models pbm =
     (case mo of
        None \<Rightarrow> Inl (KeyError ''model'')
      | Some m \<Rightarrow>
          (case po of
             None \<Rightarrow> Inl (KeyError ''prompt'')
           | Some t \<Rightarrow> group_prompts rest models (dd_append m t pbm)))"
| "group_prompts (Plain t # rest) models pbm =
     group_prompts rest models (fold (\<lambda>m d. dd_append m t d) models pbm)"

text \<open>
  The model-invocation layer is outside the repository. It is a parameter: \<open>get_llm\<close>
  and \<open>invoke\<close> act on a state \<open>'w\<close> of the outside world and either raise (\<open>Inl\<close>
  with the message) or return. A response has a \<open>content\<close> attribute or is
  stringified. Every call made is recorded in a trace.
\<close>

datatype response = WithContent answer | Stringified string

fun response_content :: "response \<Rightarrow> answer" where
  "response_content (WithContent c) = c"
| "response_content (Stringified s) = Text s"

datatype event = GetLLM string | Invoke string string

fun invoke_loop ::
  "('h \<Rightarrow> string \<Rightarrow> 'w \<Rightarrow> (string + response) \<times> 'w) \<Rightarrow> 'h \<Rightarrow> string \<Rightarrow> string list \<Rightarrow>
   answer list dict \<Rightarrow> 'w \<times> event list \<Rightarrow> (error + answer list dict) \<times> 'w \<times> event list" where
  "invoke_loop invoke llm model [] abm env = (Inr abm, env)"
| "invoke_loop invoke llm model (prompt # rest) abm (w, tr) =
     (case invoke llm prompt w of
        (Inl msg, w') \<Rightarrow> (Inl (CollaboratorError msg), w', tr @ [Invoke model prompt])
      | (Inr resp, w') \<Rightarrow>
          invoke_loop invoke llm model rest
            (dd_append model (response_content resp) abm)
            (w', tr @ [Invoke model prompt]))"

fun models_loop ::
  "(string \<Rightarrow> 'w \<Rightarrow> (string + 'h) \<times> 'w) \<Rightarrow>
   ('h \<Rightarrow> string \<Rightarrow> 'w \<Rightarrow> (string + response) \<times> 'w) \<Rightarrow> string list dict \<Rightarrow> string list \<Rightarrow>
   answer list dict \<Rightarrow> 'w \<times> event list \<Rightarrow> (error + answer list dict) \<times> 'w \<times> event list" where
  "models_loop get_llm invoke pbm [] abm env = (Inr abm, env)"
| "models_loop get_llm invoke pbm (model # rest) abm (w, tr) =
     (case get_llm model w of
        (Inl msg, w') \<Rightarrow> (Inl (CollaboratorError msg), w', tr @ [GetLLM model])
      | (Inr llm, w') \<Rightarrow>
          (case invoke_loop invoke llm model (dd_get pbm model) abm
                  (w', tr @ [GetLLM model]) of
             (Inl e, env') \<Rightarrow> (Inl e, env')
           | (Inr abm', env') \<Rightarrow> models_loop get_llm invoke pbm rest abm' env'))"

text \<open>The loop \<open>for model, answers in answers_by_model.items()\<close>.\<close>

fun per_model_loop ::
  "string \<Rightarrow> string list \<Rightarrow> string list \<Rightarrow> string list \<Rightarrow> answer list dict \<Rightarrow>
   report dict \<times> answer list \<Rightarrow> error + report dict \<times> answer list" where
  "per_model_loop brand competitors personas topics [] st = Inr st"
| "per_model_loop brand competitors personas topics ((model, answers) # rest)
     (pm, combined_answers) =
     (case analyze_answers answers brand competitors personas topics of
        Inl e \<Rightarrow> Inl e
      | Inr r \<Rightarrow>
          per_model_loop brand competitors personas topics rest
            (AList.update model r pm, combined_answers @ answers))"

record batch_result =
  per_model :: "report dict"
  combined :: report

definition generate_report ::
  "(string \<Rightarrow> 'w \<Rightarrow> (string + 'h) \<times> 'w) \<Rightarrow>
   ('h \<Rightarrow> string \<Rightarrow> 'w \<Rightarrow> (string + response) \<times> 'w) \<Rightarrow> payload \<Rightarrow> 'w \<Rightarrow>
   (error + batch_result) \<times> 'w \<times> event list" where
  "generate_report get_llm invoke payload w =
     (case p_brand payload of
        None \<Rightarrow> (Inl (KeyError ''brand''), w, [])
      | Some brand \<Rightarrow>
          (let competitors = get_default (p_competitors payload) [];
               personas = get_default (p_personas payload) [];
               topics = get_default (p_topics payload) [];
               prompts = get_default (p_prompts payload) [];
               models = get_default (p_models payload) []
           in case group_prompts prompts models [] of
                Inl e \<Rightarrow> (Inl e, w, [])
              | Inr pbm \<Rightarrow>
                  (case models_loop get_llm invoke pbm models [] (w, []) of
                     (Inl e, env) \<Rightarrow> (Inl e, env)
                   | (Inr abm, env) \<Rightarrow>
                       (case per_model_loop brand competitors personas topics abm ([], []) of
                          Inl e \<Rightarrow> (Inl e, env)
                        | Inr (pm, combined_answers) \<Rightarrow>
                            (case analyze_answers combined_answers brand competitors
                                    personas topics of
                               Inl e \<Rightarrow> (Inl e, env)
                             | Inr r \<Rightarrow> (Inr \<lparr>per_model = pm, combined = r\<rparr>, env))))))"

section \<open>Closed forms\<close>

text \<open>
  What each loop computes, stated without recursion: \<open>bump f d\<close> adds \<open>f k\<close> to the
  value under every key \<open>k\<close>; an answer is a hit for a persona or a topic when one of
  its keywords occurs in the normalized text; \<open>mentions\<close> sums the occurrence counts of
  a name over a batch; \<open>tally\<close> is the state of the counters after a batch.
\<close>

definition bump :: "(string \<Rightarrow> nat) \<Rightarrow> nat dict \<Rightarrow> nat dict" where
  "bump f d = map (\<lambda>(k, v). (k, v + f k)) d"

definition persona_hit :: "string \<Rightarrow> string \<Rightarrow> bool" where
  "persona_hit text p =
     (case persona_keywords p of Inl e \<Rightarrow> False | Inr kws \<Rightarrow> contains_any text kws)"

definition topic_hit :: "string \<Rightarrow> string \<Rightarrow> bool" where
  "topic_hit text t = contains_any text (topic_keywords t)"

definition brand_hit :: "string list \<Rightarrow> string \<Rightarrow> bool" where
  "brand_hit all_brands text = list_ex (\<lambda>b. str_in (str_lower b) text) all_brands"

definition mentions :: "answer list \<Rightarrow> string \<Rightarrow> nat" where
  "mentions answers name =
     sum_list (map (\<lambda>a. str_count (normalize_text a) (str_lower name)) answers)"

definition brand_hits :: "string list \<Rightarrow> answer list \<Rightarrow> nat" where
  "brand_hits all_brands answers =
     length (filter (\<lambda>a. brand_hit all_brands (normalize_text a)) answers)"

definition persona_hits :: "answer list \<Rightarrow> string \<Rightarrow> nat" where
  "persona_hits answers p = length (filter (\<lambda>a. persona_hit (normalize_text a) p) answers)"

definition topic_hits :: "answer list \<Rightarrow> string \<Rightarrow> nat" where
  "topic_hits answers t = length (filter (\<lambda>a. topic_hit (normalize_text a) t) answers)"

definition tally ::
  "string list \<Rightarrow> string list \<Rightarrow> string list \<Rightarrow> answer list \<Rightarrow> counters \<Rightarrow> counters" where
  "tally all_brands personas topics answers st =
     \<lparr>brand_counts =
        bump (\<lambda>k. count_list all_brands k * mentions answers k) (brand_counts st),
      brand_hit_answers = brand_hit_answers st + brand_hits all_brands answers,
      persona_counts =
        bump (\<lambda>k. count_list personas k * persona_hits answers k) (persona_counts st),
      topic_counts =
        bump (\<lambda>k. count_list topics k * topic_hits answers k) (topic_counts st)\<rparr>"

definition keys_ok :: "string list \<Rightarrow> string list \<Rightarrow> string list \<Rightarrow> counters \<Rightarrow> bool" where
  "keys_ok all_brands personas topics st =
     (distinct (map fst (brand_counts st)) \<and> set all_brands \<subseteq> fst ` set (brand_counts st) \<and>
      distinct (map fst (persona_counts st)) \<and> set personas \<subseteq> fst ` set (persona_counts st) \<and>
      distinct (map fst (topic_counts st)) \<and> set topics \<subseteq> fst ` set (topic_counts st))"

definition wordless :: "string list \<Rightarrow> bool" where
  "wordless personas = list_ex (\<lambda>p. str_split p = []) personas"

text \<open>
  For the orchestrator: \<open>queue_share models m p\<close> is what the routing rule sends to
  the queue of model \<open>m\<close> for the prompt \<open>p\<close> (a tagged prompt goes to its model only,
  a plain prompt to every listed model, once per listing); \<open>mention_count\<close> reads a
  count from a report, as \<open>brand_mentions.get(name, 0)\<close> would; a collaborator is
  \<open>responsive\<close> when none of its calls raises.
\<close>

fun queue_share :: "string list \<Rightarrow> string \<Rightarrow> prompt \<Rightarrow> string list" where
  "queue_share models m (Tagged (Some m') (Some t)) = (if m' = m then [t] else [])"
| "queue_share models m (Tagged mo po) = []"
| "queue_share models m (Plain t) = replicate (count_list models m) t"

definition mention_count :: "report \<Rightarrow> string \<Rightarrow> nat" where
  "mention_count r name = (case map_of (brand_mentions r) name of None \<Rightarrow> 0 | Some c \<Rightarrow> c)"

definition responsive ::
  "(string \<Rightarrow> 'w \<Rightarrow> (string + 'h) \<times> 'w) \<Rightarrow>
   ('h \<Rightarrow> string \<Rightarrow> 'w \<Rightarrow> (string + response) \<times> 'w) \<Rightarrow> bool" where
  "responsive get_llm invoke =
     ((\<forall>m w. \<exists>llm w'. get_llm m w = (Inr llm, w')) \<and>
      (\<forall>llm p w. \<exists>resp w'. invoke llm p w = (Inr resp, w')))"

text \<open>
  A deterministic stand-in for the model-invocation layer, to run the orchestrator on
  concrete payloads: the handle of a model is its name, the answer repeats the prompt,
  and the state counts the calls.
\<close>

definition fake_get_llm :: "string \<Rightarrow> nat \<Rightarrow> (string + string) \<times> nat" where
  "fake_get_llm model w = (Inr model, w + 1)"

definition fake_invoke :: "string \<Rightarrow> string \<Rightarrow> nat \<Rightarrow> (string + response) \<times> nat" where
  "fake_invoke llm prompt w = (Inr (WithContent (Text (llm @ '' says: '' @ prompt))), w + 1)"

section \<open>Dictionaries and string helpers: basic facts\<close>

lemma bump_Nil [simp]: "bump f [] = []"
  by (simp add: bump_def)

lemma bump_Cons [simp]: "bump f ((k, v) # d) = (k, v + f k) # bump f d"
  by (simp add: bump_def)

lemma keys_bump [simp]: "map fst (bump f d) = map fst d"
  by (induction d) auto

lemma bump_bump: "bump f (bump g d) = bump (\<lambda>k. g k + f k) d"
  by (induction d) auto

lemma bump_cong: "(\<And>k. k \<in> fst ` set d \<Longrightarrow> f k = g k) \<Longrightarrow> bump f d = bump g d"
  by (induction d) auto

lemma bump_zero [simp]: "bump (\<lambda>k. 0) d = d"
  by (induction d) auto

lemma update_bump:
  "distinct (map fst d) \<Longrightarrow> map_of d k = Some v \<Longrightarrow>
   AList.update k (v + n) d = bump (\<lambda>k'. if k' = k then n else 0) d"
proof (induction d)
  case Nil
  then show ?case by simp
next
  case (Cons x d)
  obtain k' v' where x: "x = (k', v')" by (cases x)
  show ?case
  proof (cases "k' = k")
    case True
    with Cons.prems x have "v' = v" by simp
    moreover have "bump (\<lambda>j. if j = k then n else 0) d = bump (\<lambda>j. 0) d"
      using Cons.prems x True by (intro bump_cong) auto
    ultimately show ?thesis using x True by simp
  next
    case False
    with Cons x show ?thesis by simp
  qed
qed

lemma dict_add_bump:
  assumes "distinct (map fst d)" "k \<in> fst ` set d"
  shows "dict_add k n d = Inr (bump (\<lambda>k'. if k' = k then n else 0) d)"
proof -
  from assms(2) obtain v where "map_of d k = Some v"
    by (metis domD dom_map_of_conv_image_fst)
  then show ?thesis using assms(1) by (simp add: dict_add_def update_bump)
qed

lemma count_from_pos_in: "0 < count_from k tx \<Longrightarrow> str_in k tx"
  by (induction k tx rule: count_from.induct) (auto split: if_splits)

lemma str_count_not_in: "\<not> str_in k tx \<Longrightarrow> str_count tx k = 0"
proof -
  assume a: "\<not> str_in k tx"
  have "k \<noteq> []" using a by (cases tx) auto
  with a count_from_pos_in[of k tx] show ?thesis by (auto simp: str_count_def)
qed

lemma brand_loop_eq:
  "distinct (map fst bc) \<Longrightarrow> set bs \<subseteq> fst ` set bc \<Longrightarrow>
   brand_loop tx bs (bc, found) =
     Inr (bump (\<lambda>k. count_list bs k * str_count tx (str_lower k)) bc,
          found \<or> brand_hit bs tx)"
proof (induction bs arbitrary: bc found)
  case Nil
  then show ?case by (simp add: brand_hit_def)
next
  case (Cons b bs)
  let ?n = "str_count tx (str_lower b)"
  let ?bc = "bump (\<lambda>k'. if k' = b then ?n else 0) bc"
  have add: "dict_add b ?n bc = Inr ?bc"
    using Cons.prems by (intro dict_add_bump) auto
  have keys: "distinct (map fst ?bc)" "set bs \<subseteq> fst ` set ?bc"
    using Cons.prems by (auto simp flip: set_map)
  show ?case
  proof (cases "str_in (str_lower b) tx")
    case True
    then show ?thesis
      using Cons.IH[OF keys, of True] add
      by (auto simp: brand_hit_def bump_bump intro!: bump_cong)
  next
    case False
    then have "?n = 0" by (rule str_count_not_in)
    with False show ?thesis
      using Cons.IH[of bc found] Cons.prems
      by (auto simp: brand_hit_def intro!: bump_cong)
  qed
qed

lemma persona_keywords_err: "str_split p = [] \<Longrightarrow> persona_keywords p = Inl IndexError"
  by (simp add: persona_keywords_def)

lemma persona_keywords_ok:
  "str_split p \<noteq> [] \<Longrightarrow> \<exists>kws. persona_keywords p = Inr kws"
  by (cases "str_split p") (auto simp: persona_keywords_def)

lemma persona_loop_eq:
  "distinct (map fst pc) \<Longrightarrow> set ps \<subseteq> fst ` set pc \<Longrightarrow>
   persona_loop tx ps pc =
     (if list_ex (\<lambda>p. str_split p = []) ps then Inl IndexError
      else Inr (bump (\<lambda>k. count_list ps k * (if persona_hit tx k then 1 else 0)) pc))"
proof (induction ps arbitrary: pc)
  case Nil
  then show ?case by simp
next
  case (Cons p ps)
  let ?pc = "bump (\<lambda>k'. if k' = p then 1 else 0) pc"
  have add: "dict_add p 1 pc = Inr ?pc"
    using Cons.prems by (intro dict_add_bump) auto
  have keys: "distinct (map fst ?pc)" "set ps \<subseteq> fst ` set ?pc"
    using Cons.prems by (auto simp flip: set_map)
  show ?case
  proof (cases "str_split p = []")
    case True
    then show ?thesis by (simp add: persona_keywords_err)
  next
    case False
    then obtain kws where kws: "persona_keywords p = Inr kws"
      using persona_keywords_ok by blast
    show ?thesis
    proof (cases "contains_any tx kws")
      case True
      then have "persona_hit tx p" by (simp add: persona_hit_def kws)
      then show ?thesis
        using Cons.IH[OF keys] add kws True False
        by (auto simp: bump_bump intro!: bump_cong)
    next
      case no: False
      then have "\<not> persona_hit tx p" by (simp add: persona_hit_def kws)
      then show ?thesis
        using Cons.IH[of pc] Cons.prems kws no False
        by (auto intro!: bump_cong)
    qed
  qed
qed

lemma topic_loop_eq:
  "distinct (map fst tc) \<Longrightarrow> set ts \<subseteq> fst ` set tc \<Longrightarrow>
   topic_loop tx ts tc =
     Inr (bump (\<lambda>k. count_list ts k * (if topic_hit tx k then 1 else 0)) tc)"
proof (induction ts arbitrary: tc)
  case Nil
  then show ?case by simp
next
  case (Cons t ts)
  let ?tc = "bump (\<lambda>k'. if k' = t then 1 else 0) tc"
  have add: "dict_add t 1 tc = Inr ?tc"
    using Cons.prems by (intro dict_add_bump) auto
  have keys: "distinct (map fst ?tc)" "set ts \<subseteq> fst ` set ?tc"
    using Cons.prems by (auto simp flip: set_map)
  show ?case
  proof (cases "topic_hit tx t")
    case True
    then show ?thesis
      using Cons.IH[OF keys] add
      by (auto simp: bump_bump topic_hit_def intro!: bump_cong)
  next
    case False
    then show ?thesis
      using Cons.IH[of tc] Cons.prems
      by (auto simp: topic_hit_def intro!: bump_cong)
  qed
qed

lemma tally_Nil [simp]: "tally ab ps ts [] st = st"
  by (simp add: tally_def mentions_def brand_hits_def persona_hits_def topic_hits_def)

lemma keys_ok_tally [simp]: "keys_ok ab ps ts (tally ab ps ts as st) = keys_ok ab ps ts st"
  by (simp add: keys_ok_def tally_def flip: set_map)

lemma tally_Cons:
  "tally ab ps ts as (tally ab ps ts [a] st) = tally ab ps ts (a # as) st"
  by (auto simp: tally_def bump_bump mentions_def brand_hits_def persona_hits_def
        topic_hits_def algebra_simps intro!: bump_cong)

lemma answer_step_eq:
  assumes "keys_ok ab ps ts st"
  shows "answer_step ab ps ts a st =
     (if list_ex (\<lambda>p. str_split p = []) ps then Inl IndexError
      else Inr (tally ab ps ts [a] st))"
proof -
  let ?tx = "normalize_text a"
  have b: "brand_loop ?tx ab (brand_counts st, False) =
     Inr (bump (\<lambda>k. count_list ab k * str_count ?tx (str_lower k)) (brand_counts st),
          brand_hit ab ?tx)"
    using assms brand_loop_eq[of "brand_counts st" ab ?tx False] by (simp add: keys_ok_def)
  have p: "persona_loop ?tx ps (persona_counts st) =
     (if list_ex (\<lambda>p. str_split p = []) ps then Inl IndexError
      else Inr (bump (\<lambda>k. count_list ps k * (if persona_hit ?tx k then 1 else 0))
                  (persona_counts st)))"
    using assms by (intro persona_loop_eq) (simp_all add: keys_ok_def)
  have t: "topic_loop ?tx ts (topic_counts st) =
     Inr (bump (\<lambda>k. count_list ts k * (if topic_hit ?tx k then 1 else 0)) (topic_counts st))"
    using assms by (intro topic_loop_eq) (simp_all add: keys_ok_def)
  show ?thesis
    by (auto simp add: answer_step_def b p t tally_def mentions_def brand_hits_def
          persona_hits_def topic_hits_def Let_def intro!: bump_cong)
qed

lemma answers_loop_eq:
  "keys_ok ab ps ts st \<Longrightarrow>
   answers_loop ab ps ts as st =
     (if as \<noteq> [] \<and> list_ex (\<lambda>p. str_split p = []) ps then Inl IndexError
      else Inr (tally ab ps ts as st))"
proof (induction as arbitrary: st)
  case Nil
  then show ?case by simp
next
  case (Cons a as)
  show ?case
  proof (cases "list_ex (\<lambda>p. str_split p = []) ps")
    case True
    then show ?thesis using Cons.prems by (simp add: answer_step_eq)
  next
    case False
    have "keys_ok ab ps ts (tally ab ps ts [a] st)" using Cons.prems by simp
    from Cons.IH[OF this] False Cons.prems show ?thesis
      by (simp add: answer_step_eq tally_Cons)
  qed
qed

lemma update_values: "snd ` set (AList.update k v d) \<subseteq> insert v (snd ` set d)"
  by (induction d) auto

lemma fold_update_zero:
  "distinct (map fst d) \<Longrightarrow> snd ` set d \<subseteq> {0::nat} \<Longrightarrow>
   distinct (map fst (fold (\<lambda>k d. AList.update k 0 d) ks d)) \<and>
   fst ` set (fold (\<lambda>k d. AList.update k 0 d) ks d) = set ks \<union> fst ` set d \<and>
   snd ` set (fold (\<lambda>k d. AList.update k 0 d) ks d) \<subseteq> {0}"
proof (induction ks arbitrary: d)
  case Nil
  then show ?case by simp
next
  case (Cons k ks)
  have "distinct (map fst (AList.update k 0 d))"
    using Cons.prems(1) by (rule distinct_update)
  moreover have "snd ` set (AList.update k 0 d) \<subseteq> {0}"
    using update_values[of k 0 d] Cons.prems(2) by auto
  ultimately show ?case
    using Cons.IH[of "AList.update k 0 d"] by (auto simp: dom_update)
qed

lemma zero_dict_distinct [simp]: "distinct (map fst (zero_dict ks))"
  using fold_update_zero[of "[]" ks] by (simp add: zero_dict_def)

lemma zero_dict_keys [simp]: "fst ` set (zero_dict ks) = set ks"
  using fold_update_zero[of "[]" ks] by (simp add: zero_dict_def)

lemma zero_dict_values: "(k, v) \<in> set (zero_dict ks) \<Longrightarrow> v = 0"
  using fold_update_zero[of "[]" ks] by (force simp: zero_dict_def)

lemma map_of_zero_dict: "map_of (zero_dict ks) k = (if k \<in> set ks then Some 0 else None)"
proof (cases "k \<in> set ks")
  case True
  then have "k \<in> fst ` set (zero_dict ks)" by simp
  then obtain v where "(k, v) \<in> set (zero_dict ks)" by force
  moreover from this have "v = 0" by (rule zero_dict_values)
  ultimately show ?thesis using True by simp
next
  case False
  then have "k \<notin> fst ` set (zero_dict ks)" by simp
  then show ?thesis using False by (simp add: map_of_eq_None_iff)
qed

lemma map_of_bump: "map_of (bump f d) k = map_option (\<lambda>v. v + f k) (map_of d k)"
  by (induction d) auto

lemma keys_ok_initial [simp]: "keys_ok ab ps ts (initial_counters ab ps ts)"
  by (simp add: keys_ok_def initial_counters_def)

lemma count_answers_eq:
  "count_answers as b cs ps ts =
     (if as \<noteq> [] \<and> wordless ps then Inl IndexError
      else Inr (tally (b # cs) ps ts as (initial_counters (b # cs) ps ts)))"
  unfolding count_answers_def Let_def wordless_def
  by (rule answers_loop_eq) simp

lemma analyze_answers_eq:
  "analyze_answers as b cs ps ts =
     (if as \<noteq> [] \<and> wordless ps then Inl IndexError
      else Inr (build_report (if length as = 0 then 1 else length as)
                  (tally (b # cs) ps ts as (initial_counters (b # cs) ps ts))))"
  by (simp add: analyze_answers_def count_answers_eq)

lemma fold_update_fresh:
  "distinct (map fst (acc @ xs)) \<Longrightarrow>
   fold (\<lambda>(k, v) d. AList.update k v d) xs acc = acc @ xs"
proof (induction xs arbitrary: acc)
  case Nil
  then show ?case by simp
next
  case (Cons x xs)
  obtain k v where x: "x = (k, v)" by (cases x)
  have fresh: "k \<notin> fst ` set acc" using Cons.prems x by auto
  have "AList.update k v acc = acc @ [(k, v)]"
    using fresh by (induction acc) auto
  moreover have "distinct (map fst ((acc @ [(k, v)]) @ xs))" using Cons.prems x by simp
  ultimately show ?case using Cons.IH[of "acc @ [(k, v)]"] x by simp
qed

lemma dict_of_items_id: "distinct (map fst xs) \<Longrightarrow> dict_of_items xs = xs"
  using fold_update_fresh[of "[]" xs] by (simp add: dict_of_items_def)

lemma distinct_keys_sort:
  "distinct (map fst xs) \<Longrightarrow> distinct (map fst (sort_key f xs))"
  by (simp add: distinct_map)

lemma brand_mentions_eq:
  "distinct (map fst (brand_counts st)) \<Longrightarrow>
   brand_mentions (build_report n st) = sorted_desc (brand_counts st)"
  by (simp add: build_report_def sorted_desc_def dict_of_items_id distinct_keys_sort)

lemma visibility_eq:
  "distinct (map fst d) \<Longrightarrow>
   visibility n d = map (\<lambda>(k, c). (k, percent c n)) (filter (\<lambda>(k, c). 0 < c) d)"
proof -
  assume d: "distinct (map fst d)"
  have "map fst (map (\<lambda>(k, c). (k, percent c n)) (filter (\<lambda>(k, c). 0 < c) d)) =
        map fst (filter (\<lambda>(k, c). 0 < c) d)"
    by (induction d) auto
  moreover have "distinct (map fst (filter (\<lambda>(k, c). 0 < c) d))"
    using d by (simp add: distinct_map_filter)
  ultimately have "distinct (map fst (map (\<lambda>(k, c). (k, percent c n)) (filter (\<lambda>(k, c). 0 < c) d)))"
    by metis
  then show ?thesis unfolding visibility_def by (rule dict_of_items_id)
qed

section \<open>Evaluating the percentage\<close>

lemma str_split_empty: "str_split [] = []"
  by (simp add: str_split_def)

lemma percent_29_50: "percent 29 50 = 57"
  by code_simp

lemma percent_1_1: "percent 1 1 = 100"
  by code_simp

lemma percent_0: "percent 0 n = 0"
  by (simp add: percent_def float_to_int_def float_mul_def float_div_def fl_round_def)

lemma brand_visibility_eq:
  "analyze_answers as b cs ps ts = Inr r \<Longrightarrow>
   brand_visibility r = percent (brand_hits (b # cs) as) (if length as = 0 then 1 else length as)"
  by (auto simp: analyze_answers_eq build_report_def tally_def initial_counters_def
        split: if_splits)

lemma hit_acme: "brand_hit [''Acme''] (normalize_text (Text ''acme'')) = True"
  by code_simp

lemma miss_other: "brand_hit [''Acme''] (normalize_text (Text ''other'')) = False"
  by code_simp

section \<open>Bounds on the percentage\<close>

text \<open>
  Rounding to the nearest binary64 number never moves a quotient across an integer
  bound: a count that is at most the total gives a percentage of at most 100.
\<close>

lemma bit_length_mono: "a \<le> b \<Longrightarrow> bit_length a \<le> bit_length b"
proof (induction a arbitrary: b rule: bit_length.induct)
  case (1 n)
  show ?case
  proof (cases "n \<le> 0")
    case True
    then show ?thesis by (simp add: bit_length.simps[of n])
  next
    case False
    with "1.prems" have b: "\<not> b \<le> 0" by simp
    have "n div 2 \<le> b div 2" using "1.prems" by (rule zdiv_mono1) simp
    from "1.IH"[OF False this] False b show ?thesis
      by (simp add: bit_length.simps[of n] bit_length.simps[of b])
  qed
qed

lemma bit_length_double: "0 < b \<Longrightarrow> bit_length (2 * b) = Suc (bit_length b)"
  by (subst bit_length.simps) simp

lemma bit_length_shift: "0 < b \<Longrightarrow> a \<le> 2 ^ j * b \<Longrightarrow> bit_length a \<le> bit_length b + j"
proof (induction j arbitrary: a b)
  case 0
  then show ?case by (simp add: bit_length_mono)
next
  case (Suc j)
  have "a \<le> 2 ^ j * (2 * b)" using Suc.prems(2) by (simp add: mult.assoc)
  moreover have "0 < 2 * b" using Suc.prems(1) by simp
  ultimately have "bit_length a \<le> bit_length (2 * b) + j" by (rule Suc.IH[rotated])
  then show ?case using Suc.prems(1) by (simp add: bit_length_double)
qed

lemma round_half_even_le:
  assumes "0 < b" "a \<le> N * b"
  shows "round_half_even a b \<le> N"
proof -
  have q: "a div b \<le> N"
    using assms by (metis zdiv_mono1 nonzero_mult_div_cancel_right less_irrefl)
  show ?thesis
  proof (cases "a div b = N")
    case True
    have "a = b * (a div b) + a mod b" by simp
    with True assms(2) have "a mod b \<le> 0" by (simp add: mult.commute)
    moreover have "0 \<le> a mod b" using assms(1) by simp
    ultimately have "a mod b = 0" by simp
    then show ?thesis using True assms(1) by (simp add: round_half_even_def Let_def)
  next
    case False
    with q have "a div b + 1 \<le> N" by simp
    with q show ?thesis by (auto simp: round_half_even_def Let_def)
  qed
qed


lemma round_half_even_nonneg:
  assumes "0 < b" "0 \<le> a"
  shows "0 \<le> round_half_even a b"
proof -
  have "0 \<le> a div b" using assms by (simp add: pos_imp_zdiv_nonneg_iff)
  then show ?thesis by (simp add: round_half_even_def Let_def)
qed

lemma fl_round_le:
  assumes "0 < a" "0 < b" "a \<le> N * b" "N \<le> 2 ^ j" "j \<le> 51"
  shows "0 < snd (fl_round a b) \<and> 0 \<le> fst (fl_round a b) \<and>
         fst (fl_round a b) \<le> N * snd (fl_round a b)"
proof -
  define e0 where "e0 = int (bit_length a) - int (bit_length b) - 53"
  define k where "k = nat (- e0)"
  have "a \<le> 2 ^ j * b"
    using assms(2,3,4) by (meson mult_right_mono order_trans less_imp_le)
  then have "bit_length a \<le> bit_length b + j"
    using assms(2) by (intro bit_length_shift)
  then have e0: "e0 \<le> - 2" using assms(5) by (simp add: e0_def)
  then have k: "2 \<le> k" "e0 = - int k" by (simp_all add: k_def)
  have k1: "nat (- (e0 + 1)) = k - 1" using k by simp
  have scaled: "a * 2 ^ k \<le> N * b * 2 ^ k"
    using assms(3) by (simp add: mult_right_mono)
  have pw: "(2::int) ^ k = 2 * 2 ^ (k - 1)"
    using k(1) by (cases k) simp_all
  show ?thesis
  proof (cases "b * 2 ^ 53 \<le> a * 2 ^ k")
    case True
    have "a * 2 ^ k \<le> (N * 2 ^ (k - 1)) * (2 * b)"
      using scaled pw by (simp add: mult.assoc mult.left_commute mult.commute)
    then have "round_half_even (a * 2 ^ k) (2 * b) \<le> N * 2 ^ (k - 1)"
      using assms(2) by (intro round_half_even_le) simp_all
    moreover have "0 \<le> round_half_even (a * 2 ^ k) (2 * b)"
      using assms(1,2) by (intro round_half_even_nonneg) simp_all
    moreover have "fl_round a b = (round_half_even (a * 2 ^ k) (2 * b), 2 ^ (k - 1))"
      using assms(1) e0 True k1
      by (simp add: fl_round_def Let_def flip: e0_def k_def)
    ultimately show ?thesis by simp
  next
    case False
    have "a * 2 ^ k \<le> (N * 2 ^ k) * b"
      using scaled by (simp add: mult.assoc mult.left_commute mult.commute)
    then have "round_half_even (a * 2 ^ k) b \<le> N * 2 ^ k"
      using assms(2) by (intro round_half_even_le) simp_all
    moreover have "0 \<le> round_half_even (a * 2 ^ k) b"
      using assms(1,2) by (intro round_half_even_nonneg) simp_all
    moreover have "fl_round a b = (round_half_even (a * 2 ^ k) b, 2 ^ k)"
      using assms(1) e0 False
      by (simp add: fl_round_def Let_def flip: e0_def k_def)
    ultimately show ?thesis by simp
  qed
qed

lemma fl_round_zero: "fl_round 0 b = (0, 1)"
  by (simp add: fl_round_def)

lemma percent_le_100:
  assumes "c \<le> n" "0 < n"
  shows "percent c n \<le> 100"
proof (cases "c = 0")
  case True
  then show ?thesis by (simp add: percent_0)
next
  case False
  define x where "x = fl_round (int c) (int n)"
  have x: "0 < snd x \<and> 0 \<le> fst x \<and> fst x \<le> 1 * snd x"
    unfolding x_def using assms False by (intro fl_round_le[where j = 1]) simp_all
  have p: "percent c n = nat (fst (fl_round (fst x * 100) (snd x)) div
                              snd (fl_round (fst x * 100) (snd x)))"
    by (simp add: percent_def float_to_int_def float_mul_def float_div_def x_def)
  show ?thesis
  proof (cases "fst x = 0")
    case True
    then show ?thesis unfolding p by (simp add: fl_round_zero)
  next
    case nz: False
    define y where "y = fl_round (fst x * 100) (snd x)"
    have "0 < fst x * 100" using x nz by simp
    moreover have "fst x * 100 \<le> 100 * snd x" using x by simp
    ultimately have y: "0 < snd y \<and> 0 \<le> fst y \<and> fst y \<le> 100 * snd y"
      unfolding y_def using x by (intro fl_round_le[where j = 7]) simp_all
    then have "fst y div snd y \<le> 100"
      by (metis zdiv_mono1 nonzero_mult_div_cancel_right less_irrefl)
    then show ?thesis unfolding p y_def[symmetric] by simp
  qed
qed

lemma brand_hits_le: "brand_hits ab as \<le> length as"
  by (simp add: brand_hits_def)

lemma brand_visibility_bounds:
  assumes "analyze_answers as b cs ps ts = Inr r"
  shows "brand_visibility r \<le> 100 \<and> (as = [] \<longrightarrow> brand_visibility r = 0)"
proof -
  have v: "brand_visibility r =
        percent (brand_hits (b # cs) as) (if length as = 0 then 1 else length as)"
    using assms by (rule brand_visibility_eq)
  have "brand_visibility r \<le> 100"
    unfolding v using brand_hits_le[of "b # cs" as] by (intro percent_le_100) auto
  moreover have "as = [] \<longrightarrow> brand_visibility r = 0"
    unfolding v by (simp add: brand_hits_def percent_0)
  ultimately show ?thesis by simp
qed

section \<open>What \<open>analyze_answers\<close> returns\<close>

lemma analyze_answers_Inr:
  "analyze_answers as b cs ps ts = Inr r \<Longrightarrow>
   r = build_report (if length as = 0 then 1 else length as)
         (tally (b # cs) ps ts as (initial_counters (b # cs) ps ts))"
  by (auto simp: analyze_answers_eq split: if_splits)

lemma brand_counts_tally:
  "brand_counts (tally ab ps ts as (initial_counters ab ps ts)) =
     bump (\<lambda>k. count_list ab k * mentions as k) (zero_dict ab)"
  by (simp add: tally_def initial_counters_def)

lemma persona_counts_tally:
  "persona_counts (tally ab ps ts as (initial_counters ab ps ts)) =
     bump (\<lambda>k. count_list ps k * persona_hits as k) (zero_dict ps)"
  by (simp add: tally_def initial_counters_def)

lemma topic_counts_tally:
  "topic_counts (tally ab ps ts as (initial_counters ab ps ts)) =
     bump (\<lambda>k. count_list ts k * topic_hits as k) (zero_dict ts)"
  by (simp add: tally_def initial_counters_def)

lemma map_of_counts:
  "map_of (bump f (zero_dict ks)) k = (if k \<in> set ks then Some (f k) else None)"
  by (simp add: map_of_bump map_of_zero_dict)

lemma dom_bump: "fst ` set (bump f d) = fst ` set d"
  by (simp add: bump_def image_image case_prod_unfold)

lemma keys_counts: "fst ` set (bump f (zero_dict ks)) = set ks"
  by (simp add: dom_bump)

lemma distinct_counts: "distinct (map fst (bump f (zero_dict ks)))"
  by simp

lemma map_of_sorted_desc:
  "distinct (map fst d) \<Longrightarrow> map_of (sorted_desc d) = map_of d"
  unfolding sorted_desc_def
  by (subst map_of_inject_set) (simp_all add: distinct_keys_sort)

lemma sorted_desc_sorted: "sorted_wrt (\<lambda>x y. snd y \<le> snd x) (sorted_desc d)"
proof -
  have "sorted (map (\<lambda>x. - int (snd x)) (sorted_desc d))"
    unfolding sorted_desc_def by (rule sorted_sort_key)
  then show ?thesis by (simp add: sorted_map)
qed

lemma in_keys_filter:
  "distinct (map fst d) \<Longrightarrow>
   k \<in> fst ` set (filter (\<lambda>(k, c). 0 < c) d) \<longleftrightarrow> (\<exists>c. map_of d k = Some c \<and> 0 < c)"
  by (auto simp: image_iff)

lemma visibility_keys:
  assumes "distinct (map fst d)"
  shows "k \<in> fst ` set (visibility n d) \<longleftrightarrow> (\<exists>c. map_of d k = Some c \<and> 1 \<le> c)"
proof -
  have "fst ` set (visibility n d) = fst ` set (filter (\<lambda>(k, c). 0 < c) d)"
    by (simp add: visibility_eq[OF assms] image_image case_prod_unfold)
  then show ?thesis using in_keys_filter[OF assms, of k] by (simp add: Suc_le_eq)
qed

lemma count_answers_Inr:
  "analyze_answers as b cs ps ts = Inr r \<Longrightarrow>
   count_answers as b cs ps ts = Inr (tally (b # cs) ps ts as (initial_counters (b # cs) ps ts))"
  by (auto simp: analyze_answers_eq count_answers_eq split: if_splits)

lemma count_list_pos: "0 < count_list xs x \<longleftrightarrow> x \<in> set xs"
  using count_list_0_iff[of xs x] by auto

lemma persona_hit_words:
  "str_split p = w # ws \<Longrightarrow>
   persona_hit tx p \<longleftrightarrow>
     str_in (str_lower p) tx \<or> str_in (str_lower w) tx \<or>
     str_in ''strategy'' tx \<or> str_in ''roadmap'' tx \<or> str_in ''architecture'' tx \<or>
     str_in ''planning'' tx \<or> str_in ''analysis'' tx \<or> str_in ''decision'' tx"
  by (simp add: persona_hit_def persona_keywords_def contains_any_def)

lemma split_product_manager: "str_split ''Product Manager'' = [''Product'', ''Manager'']"
  by code_simp

lemma percent_Suc_0: "percent (Suc 0) (Suc 0) = 100"
  using percent_1_1 by simp

lemma zero_dict_single: "zero_dict [k] = [(k, 0)]"
  by (simp add: zero_dict_def)

lemma visibility_single: "0 < c \<Longrightarrow> visibility n [(k, c)] = [(k, percent c n)]"
  by (simp add: visibility_def dict_of_items_def)

section \<open>What \<open>generate_report\<close> returns\<close>

lemma dd_get_append:
  "dd_get (dd_append k v d) m = (if m = k then dd_get d k @ [v] else dd_get d m)"
  by (simp add: dd_get_def dd_append_def update_conv')

lemma dd_get_broadcast:
  "dd_get (fold (\<lambda>m d. dd_append m t d) models d) m =
     dd_get d m @ replicate (count_list models m) t"
proof (induction models arbitrary: d)
  case Nil
  then show ?case by simp
next
  case (Cons a models)
  show ?case
    by (simp add: Cons.IH dd_get_append replicate_append_same)
qed

lemma group_prompts_queue:
  "group_prompts prompts models d = Inr d' \<Longrightarrow>
   dd_get d' m = dd_get d m @ concat (map (queue_share models m) prompts)"
proof (induction prompts models d rule: group_prompts.induct)
  case (1 models pbm)
  then show ?case by simp
next
  case (2 mo po rest models pbm)
  then show ?case
    by (cases mo; cases po) (auto simp: dd_get_append)
next
  case (3 t rest models pbm)
  then show ?case by (simp add: dd_get_broadcast)
qed

lemma group_prompts_error:
  "group_prompts prompts models d = Inl e \<Longrightarrow> e = KeyError ''model'' \<or> e = KeyError ''prompt''"
proof (induction prompts models d rule: group_prompts.induct)
  case (1 models pbm)
  then show ?case by simp
next
  case (2 mo po rest models pbm)
  then show ?case by (cases mo; cases po) auto
next
  case (3 t rest models pbm)
  then show ?case by simp
qed

lemma dom_dd_append: "fst ` set (dd_append k v d) = insert k (fst ` set d)"
  by (simp add: dd_append_def dom_update)

lemma distinct_dd_append:
  "distinct (map fst d) \<Longrightarrow> distinct (map fst (dd_append k v d))"
  by (simp add: dd_append_def distinct_update)

lemma invoke_loop_Inr:
  "invoke_loop invoke llm model prompts abm (w, tr) = (Inr abm', w', tr') \<Longrightarrow>
   fst ` set abm' = fst ` set abm \<union> (if prompts = [] then {} else {model}) \<and>
   (distinct (map fst abm) \<longrightarrow> distinct (map fst abm')) \<and>
   tr' = tr @ map (Invoke model) prompts"
proof (induction prompts arbitrary: abm w tr)
  case Nil
  then show ?case by simp
next
  case (Cons p prompts)
  from Cons.prems obtain resp w1 where
    inv: "invoke llm p w = (Inr resp, w1)" and
    rest: "invoke_loop invoke llm model prompts (dd_append model (response_content resp) abm)
             (w1, tr @ [Invoke model p]) = (Inr abm', w', tr')"
    by (auto split: prod.splits sum.splits)
  from Cons.IH[OF rest] show ?case
    by (auto simp: dom_dd_append distinct_dd_append)
qed

lemma invoke_loop_Inl:
  "invoke_loop invoke llm model prompts abm (w, tr) = (Inl e, env) \<Longrightarrow>
   \<exists>msg. e = CollaboratorError msg"
proof (induction prompts arbitrary: abm w tr)
  case Nil
  then show ?case by simp
next
  case (Cons p prompts)
  then show ?case by (auto split: prod.splits sum.splits)
qed

lemma models_loop_Inr:
  "models_loop get_llm invoke pbm models abm (w, tr) = (Inr abm', w', tr') \<Longrightarrow>
   fst ` set abm' = fst ` set abm \<union> {m \<in> set models. dd_get pbm m \<noteq> []} \<and>
   (distinct (map fst abm) \<longrightarrow> distinct (map fst abm')) \<and>
   set tr \<union> GetLLM ` set models \<subseteq> set tr'"
proof (induction models arbitrary: abm w tr)
  case Nil
  then show ?case by simp
next
  case (Cons m models)
  from Cons.prems obtain llm w1 abm1 w2 tr2 where
    g: "get_llm m w = (Inr llm, w1)" and
    i: "invoke_loop invoke llm m (dd_get pbm m) abm (w1, tr @ [GetLLM m]) = (Inr abm1, w2, tr2)" and
    rest: "models_loop get_llm invoke pbm models abm1 (w2, tr2) = (Inr abm', w', tr')"
    by (auto split: prod.splits sum.splits)
  from invoke_loop_Inr[OF i] Cons.IH[OF rest] show ?case by auto
qed

lemma models_loop_Inl:
  "models_loop get_llm invoke pbm models abm (w, tr) = (Inl e, env) \<Longrightarrow>
   \<exists>msg. e = CollaboratorError msg"
proof (induction models arbitrary: abm w tr)
  case Nil
  then show ?case by simp
next
  case (Cons m models)
  then show ?case
    by (auto split: prod.splits sum.splits dest: invoke_loop_Inl)
qed

lemma invoke_loop_responsive:
  "\<forall>llm p w. \<exists>resp w'. invoke llm p w = (Inr resp, w') \<Longrightarrow>
   \<exists>abm' env'. invoke_loop invoke llm model prompts abm (w, tr) = (Inr abm', env')"
proof (induction prompts arbitrary: abm w tr)
  case Nil
  then show ?case by simp
next
  case (Cons p prompts)
  from Cons.prems obtain resp w1 where "invoke llm p w = (Inr resp, w1)" by blast
  with Cons.IH[OF Cons.prems] show ?case by simp
qed

lemma models_loop_responsive:
  assumes "responsive get_llm invoke"
  shows "\<exists>abm' env'. models_loop get_llm invoke pbm models abm (w, tr) = (Inr abm', env')"
proof (induction models arbitrary: abm w tr)
  case Nil
  then show ?case by simp
next
  case (Cons m models)
  from assms obtain llm w1 where g: "get_llm m w = (Inr llm, w1)"
    unfolding responsive_def by blast
  from assms have "\<forall>llm p w. \<exists>resp w'. invoke llm p w = (Inr resp, w')"
    unfolding responsive_def by blast
  from invoke_loop_responsive[OF this] obtain abm1 w2 tr2 where
    i: "invoke_loop invoke llm m (dd_get pbm m) abm (w1, tr @ [GetLLM m]) = (Inr abm1, w2, tr2)"
    by (metis prod.collapse)
  from Cons.IH[of abm1 w2 tr2] g i show ?case by simp
qed

lemma update_fresh: "k \<notin> fst ` set d \<Longrightarrow> AList.update k v d = d @ [(k, v)]"
  by (induction d) auto

lemma per_model_loop_Inr:
  "distinct (map fst abm) \<Longrightarrow> fst ` set pm \<inter> fst ` set abm = {} \<Longrightarrow>
   per_model_loop b cs ps ts abm (pm, ca) = Inr (pm', ca') \<Longrightarrow>
   ca' = ca @ concat (map snd abm) \<and>
   (\<exists>reports. pm' = pm @ reports \<and>
      list_all2 (\<lambda>(m, as) (m', r). m' = m \<and> analyze_answers as b cs ps ts = Inr r)
        abm reports)"
proof (induction abm arbitrary: pm ca)
  case Nil
  then show ?case by simp
next
  case (Cons x abm)
  obtain m as where x: "x = (m, as)" by (cases x)
  from Cons.prems(3) x obtain r where
    r: "analyze_answers as b cs ps ts = Inr r" and
    rest: "per_model_loop b cs ps ts abm (AList.update m r pm, ca @ as) = Inr (pm', ca')"
    by (auto split: sum.splits)
  have fresh: "m \<notin> fst ` set pm" using Cons.prems(2) x by auto
  then have upd: "AList.update m r pm = pm @ [(m, r)]" by (rule update_fresh)
  have d: "distinct (map fst abm)" using Cons.prems(1) by simp
  have disj: "fst ` set (pm @ [(m, r)]) \<inter> fst ` set abm = {}"
    using Cons.prems(1,2) x by (auto simp: image_iff)
  have rest': "per_model_loop b cs ps ts abm (pm @ [(m, r)], ca @ as) = Inr (pm', ca')"
    using rest upd by simp
  from Cons.IH[OF d disj rest'] obtain reports where
    ca: "ca' = (ca @ as) @ concat (map snd abm)" and
    pm: "pm' = (pm @ [(m, r)]) @ reports" and
    all: "list_all2 (\<lambda>(m, as) (m', r). m' = m \<and> analyze_answers as b cs ps ts = Inr r)
            abm reports"
    by blast
  have "list_all2 (\<lambda>(m, as) (m', r). m' = m \<and> analyze_answers as b cs ps ts = Inr r)
          (x # abm) ((m, r) # reports)"
    using all r x by simp
  with ca pm x show ?case by simp
qed

lemma per_model_loop_Inl:
  "per_model_loop b cs ps ts abm st = Inl e \<Longrightarrow> e = IndexError"
proof (induction b cs ps ts abm st rule: per_model_loop.induct)
  case (1 brand competitors personas topics st)
  then show ?case by simp
next
  case (2 brand competitors personas topics model answers rest pm combined_answers)
  then show ?case
    by (auto simp: analyze_answers_eq split: sum.splits if_splits)
qed

lemma per_model_loop_ok:
  "\<not> wordless ps \<Longrightarrow> \<exists>st'. per_model_loop b cs ps ts abm st = Inr st'"
proof (induction b cs ps ts abm st rule: per_model_loop.induct)
  case (1 brand competitors personas topics st)
  then show ?case by simp
next
  case (2 brand competitors personas topics model answers rest pm combined_answers)
  then show ?case by (simp add: analyze_answers_eq)
qed

lemma analyze_answers_Inl: "analyze_answers as b cs ps ts = Inl e \<Longrightarrow> e = IndexError"
  by (auto simp: analyze_answers_eq split: if_splits)

lemma mentions_append: "mentions (xs @ ys) n = mentions xs n + mentions ys n"
  by (simp add: mentions_def)

lemma mentions_concat: "mentions (concat xss) n = sum_list (map (\<lambda>xs. mentions xs n) xss)"
  by (induction xss) (simp_all add: mentions_append, simp add: mentions_def)

lemma map_of_brand_mentions:
  assumes "analyze_answers as b cs ps ts = Inr r"
  shows "map_of (brand_mentions r) n =
     (if n \<in> set (b # cs) then Some (count_list (b # cs) n * mentions as n) else None)"
proof -
  let ?bc = "bump (\<lambda>k. count_list (b # cs) k * mentions as k) (zero_dict (b # cs))"
  have "brand_mentions r = sorted_desc ?bc"
    unfolding analyze_answers_Inr[OF assms]
    by (subst brand_mentions_eq) (simp_all only: brand_counts_tally distinct_counts)
  then have "map_of (brand_mentions r) = map_of ?bc"
    by (simp only: map_of_sorted_desc[OF distinct_counts])
  then show ?thesis by (simp only: map_of_counts)
qed

lemma mention_count_eq:
  "analyze_answers as b cs ps ts = Inr r \<Longrightarrow> n \<in> set (b # cs) \<Longrightarrow>
   mention_count r n = count_list (b # cs) n * mentions as n"
  by (simp add: mention_count_def map_of_brand_mentions)

lemma sum_mention_counts:
  "list_all2 (\<lambda>(m, as) (m', r). m' = m \<and> analyze_answers as b cs ps ts = Inr r) abm reports \<Longrightarrow>
   n \<in> set (b # cs) \<Longrightarrow>
   sum_list (map (\<lambda>(m, r). mention_count r n) reports) =
     count_list (b # cs) n * mentions (concat (map snd abm)) n"
proof (induction abm reports rule: list_all2_induct)
  case Nil
  then show ?case by (simp add: mentions_def)
next
  case (Cons x abm y reports)
  obtain m as where x: "x = (m, as)" by (cases x)
  obtain m' r where y: "y = (m', r)" by (cases y)
  from Cons.hyps(1) x y have "analyze_answers as b cs ps ts = Inr r" by simp
  from mention_count_eq[OF this Cons.prems] Cons.IH[OF Cons.prems] x y
  show ?case by (simp add: mentions_append algebra_simps)
qed

lemma generate_report_Inr:
  assumes "generate_report get_llm invoke payload w = (Inr res, env)"
  shows "\<exists>brand pbm abm ca.
     p_brand payload = Some brand \<and>
     group_prompts (get_default (p_prompts payload) []) (get_default (p_models payload) []) []
       = Inr pbm \<and>
     models_loop get_llm invoke pbm (get_default (p_models payload) []) [] (w, [])
       = (Inr abm, env) \<and>
     per_model_loop brand (get_default (p_competitors payload) [])
       (get_default (p_personas payload) []) (get_default (p_topics payload) []) abm ([], [])
       = Inr (per_model res, ca) \<and>
     analyze_answers ca brand (get_default (p_competitors payload) [])
       (get_default (p_personas payload) []) (get_default (p_topics payload) [])
       = Inr (combined res)"
  using assms unfolding generate_report_def Let_def
  by (auto split: option.splits sum.splits prod.splits)

lemma generate_report_Inl:
  assumes "generate_report get_llm invoke payload w = (Inl e, env)"
      and "p_brand payload \<noteq> None"
  shows "e = KeyError ''model'' \<or> e = KeyError ''prompt'' \<or> e = IndexError \<or>
         (\<exists>msg. e = CollaboratorError msg)"
  using assms unfolding generate_report_def Let_def
  by (auto split: option.splits sum.splits prod.splits
      dest: group_prompts_error models_loop_Inl per_model_loop_Inl analyze_answers_Inl)

lemma reports_keys:
  "list_all2 (\<lambda>(m, as) (m', r). m' = m \<and> P as r) abm reports \<Longrightarrow>
   map fst reports = map fst abm"
  by (induction abm reports rule: list_all2_induct) auto

lemma reports_present:
  "list_all2 (\<lambda>(m, as) (m', r). m' = m \<and> analyze_answers as b cs ps ts = Inr r) abm reports \<Longrightarrow>
   n \<in> set (b # cs) \<Longrightarrow> (m, r) \<in> set reports \<Longrightarrow> map_of (brand_mentions r) n \<noteq> None"
proof (induction abm reports rule: list_all2_induct)
  case Nil
  then show ?case by simp
next
  case (Cons x abm y reports)
  then show ?case by (auto simp: map_of_brand_mentions split: prod.splits)
qed

lemma per_model_keys:
  assumes "generate_report get_llm invoke payload w = (Inr res, env)"
      and "group_prompts (get_default (p_prompts payload) [])
             (get_default (p_models payload) []) [] = Inr pbm"
  shows "fst ` set (per_model res) =
           {m \<in> set (get_default (p_models payload) []). dd_get pbm m \<noteq> []}"
proof -
  let ?models = "get_default (p_models payload) []"
  obtain w' tr where env: "env = (w', tr)" by (cases env)
  from generate_report_Inr[OF assms(1)] assms(2) env obtain brand abm ca where
    ml: "models_loop get_llm invoke pbm ?models [] (w, []) = (Inr abm, w', tr)" and
    pl: "per_model_loop brand (get_default (p_competitors payload) [])
           (get_default (p_personas payload) []) (get_default (p_topics payload) []) abm ([], [])
         = Inr (per_model res, ca)"
    by auto
  note ml' = models_loop_Inr[OF ml]
  have d: "distinct (map fst abm)" using ml' by simp
  from per_model_loop_Inr[OF d _ pl] obtain reports where
    pm: "per_model res = reports" and
    all: "list_all2 (\<lambda>(m, as) (m', r). m' = m \<and>
            analyze_answers as brand (get_default (p_competitors payload) [])
              (get_default (p_personas payload) []) (get_default (p_topics payload) []) = Inr r)
            abm reports"
    by auto
  have "map fst (per_model res) = map fst abm"
    unfolding pm by (rule reports_keys[OF all])
  then have "fst ` set (per_model res) = fst ` set abm"
    by (metis set_map)
  then show ?thesis using ml' by simp
qed

lemma generate_report_ok:
  assumes "responsive get_llm invoke"
      and "p_brand payload = Some brand"
      and "group_prompts (get_default (p_prompts payload) [])
             (get_default (p_models payload) []) [] = Inr pbm"
      and "\<not> wordless (get_default (p_personas payload) [])"
  shows "\<exists>res env. generate_report get_llm invoke payload w = (Inr res, env)"
proof -
  let ?cs = "get_default (p_competitors payload) []"
  let ?ps = "get_default (p_personas payload) []"
  let ?ts = "get_default (p_topics payload) []"
  let ?models = "get_default (p_models payload) []"
  from models_loop_responsive[OF assms(1)] obtain abm env where
    ml: "models_loop get_llm invoke pbm ?models [] (w, []) = (Inr abm, env)"
    by blast
  from per_model_loop_ok[OF assms(4)] obtain pm ca where
    pl: "per_model_loop brand ?cs ?ps ?ts abm ([], []) = Inr (pm, ca)"
    by (metis prod.collapse)
  have an: "analyze_answers ca brand ?cs ?ps ?ts =
     Inr (build_report (if length ca = 0 then 1 else length ca)
            (tally (brand # ?cs) ?ps ?ts ca (initial_counters (brand # ?cs) ?ps ?ts)))"
    using assms(4) by (simp add: analyze_answers_eq)
  show ?thesis
    unfolding generate_report_def Let_def
    by (simp add: assms(2,3) ml pl an)
qed

lemma fake_responsive: "responsive fake_get_llm fake_invoke"
  by (simp add: responsive_def fake_get_llm_def fake_invoke_def)

section \<open>The claims about \<open>analyze_answers\<close>\<close>

text \<open>
  Claim C1. \<open>brand_visibility\<close> is claimed to equal
  \<open>floor(100 * brand_hit_answers / max(1, len(answers)))\<close> in exact integer
  arithmetic. The code computes \<open>int((brand_hit_answers / total_answers) * 100)\<close> in
  binary64: in a batch of 50 answers of which 29 mention the brand, the quotient 0.58
  and then the product are rounded, the product comes out just below 58, and the
  returned value is 57, not 58.
\<close>

theorem brand_visibility_29_of_50:
  "brand_hits [''Acme''] (replicate 29 (Text ''acme'') @ replicate 21 (Text ''other'')) = 29 \<and>
   map_sum id brand_visibility
     (analyze_answers (replicate 29 (Text ''acme'') @ replicate 21 (Text ''other''))
        ''Acme'' [] [] []) = Inr 57 \<and>
   (100 * 29) div max 1 (length (replicate 29 (Text ''acme'') @ replicate 21 (Text ''other'')))
     = (58 :: nat)"
proof -
  let ?batch = "replicate 29 (Text ''acme'') @ replicate 21 (Text ''other'')"
  have hits: "brand_hits [''Acme''] ?batch = 29"
    unfolding brand_hits_def filter_append filter_replicate hit_acme miss_other by simp
  have "analyze_answers ?batch ''Acme'' [] [] [] =
        Inr (build_report 50 (tally [''Acme''] [] [] ?batch (initial_counters [''Acme''] [] [])))"
    by (simp add: analyze_answers_eq wordless_def)
  then have "map_sum id brand_visibility (analyze_answers ?batch ''Acme'' [] [] []) =
        Inr (percent 29 50)"
    by (simp add: build_report_def tally_def initial_counters_def hits)
  then show ?thesis using hits by (simp add: percent_29_50)
qed

text \<open>
  Claim C3. In the report returned for a batch, \<open>brand_mentions\<close> has exactly the names
  of \<open>[brand] + competitors\<close> as keys (a name without mentions is present with 0), is
  ordered by descending count, and maps a name to the sum over the answers of the
  occurrences of its lowercase form in the normalized text. Every entry of the
  vocabulary list is scored on its own, so a name that is listed several times
  receives that sum once per listing.
\<close>

theorem brand_mentions_counts:
  "analyze_answers answers brand competitors personas topics = Inr r \<Longrightarrow>
   fst ` set (brand_mentions r) = set (brand # competitors) \<and>
   distinct (map fst (brand_mentions r)) \<and>
   sorted_wrt (\<lambda>x y. snd y \<le> snd x) (brand_mentions r) \<and>
   (\<forall>name \<in> set (brand # competitors).
      map_of (brand_mentions r) name =
        Some (count_list (brand # competitors) name * mentions answers name))"
proof -
  assume a: "analyze_answers answers brand competitors personas topics = Inr r"
  let ?ab = "brand # competitors"
  let ?bc = "bump (\<lambda>k. count_list ?ab k * mentions answers k) (zero_dict ?ab)"
  have bm: "brand_mentions r = sorted_desc ?bc"
    unfolding analyze_answers_Inr[OF a]
    by (subst brand_mentions_eq) (simp_all only: brand_counts_tally distinct_counts)
  have keys: "fst ` set (brand_mentions r) = set ?ab"
    unfolding bm sorted_desc_def set_sort by (rule keys_counts)
  have dist: "distinct (map fst (brand_mentions r))"
    unfolding bm sorted_desc_def by (rule distinct_keys_sort) (rule distinct_counts)
  have srt: "sorted_wrt (\<lambda>x y. snd y \<le> snd x) (brand_mentions r)"
    unfolding bm by (rule sorted_desc_sorted)
  have "map_of (brand_mentions r) = map_of ?bc"
    unfolding bm by (rule map_of_sorted_desc) (rule distinct_counts)
  then have vals: "\<forall>name \<in> set ?ab. map_of (brand_mentions r) name =
        Some (count_list ?ab name * mentions answers name)"
    by (simp only: map_of_counts) simp
  from keys dist srt vals show ?thesis by blast
qed

theorem brand_mentions_counts_witness:
  "analyze_answers [Text ''Acme is great, Acme rocks'', Text ''foo''] ''Acme''
       [''Foo'', ''Acme''] [] [] =
     Inr \<lparr>brand_visibility = 100, brand_mentions = [(''Acme'', 4), (''Foo'', 1)],
          persona_visibility = [], topic_visibility = []\<rparr> \<and>
   count_list [''Acme'', ''Foo'', ''Acme''] ''Acme'' = 2 \<and>
   mentions [Text ''Acme is great, Acme rocks'', Text ''foo''] ''Acme'' = 2 \<and>
   map_of [(''Acme'', 4 :: nat), (''Foo'', 1)] ''Acme'' =
     Some (count_list [''Acme'', ''Foo'', ''Acme''] ''Acme'' *
           mentions [Text ''Acme is great, Acme rocks'', Text ''foo''] ''Acme'')"
proof -
  have h: "analyze_answers [Text ''Acme is great, Acme rocks'', Text ''foo''] ''Acme''
       [''Foo'', ''Acme''] [] [] =
     Inr \<lparr>brand_visibility = 100, brand_mentions = [(''Acme'', 4), (''Foo'', 1)],
          persona_visibility = [], topic_visibility = []\<rparr>"
    by code_simp
  have c: "count_list [''Acme'', ''Foo'', ''Acme''] ''Acme'' = 2"
    by simp
  have m: "mentions [Text ''Acme is great, Acme rocks'', Text ''foo''] ''Acme'' = 2"
    by code_simp
  from brand_mentions_counts [OF h] h c m show ?thesis by simp
qed

text \<open>
  Claim C5. A persona is a key of \<open>persona_visibility\<close>, and a topic a key of
  \<open>topic_visibility\<close>, exactly when its counter after the loop is at least 1, which is
  when it is in the vocabulary and at least one answer is a hit for it. An entry with
  zero hits is left out.
\<close>

theorem zero_hits_omitted:
  "analyze_answers answers brand competitors personas topics = Inr r \<Longrightarrow>
   (\<exists>st. count_answers answers brand competitors personas topics = Inr st \<and>
     (\<forall>p. p \<in> fst ` set (persona_visibility r) \<longleftrightarrow>
            (\<exists>c. map_of (persona_counts st) p = Some c \<and> 1 \<le> c)) \<and>
     (\<forall>t. t \<in> fst ` set (topic_visibility r) \<longleftrightarrow>
            (\<exists>c. map_of (topic_counts st) t = Some c \<and> 1 \<le> c))) \<and>
   (\<forall>p. p \<in> fst ` set (persona_visibility r) \<longleftrightarrow>
          p \<in> set personas \<and> 1 \<le> persona_hits answers p) \<and>
   (\<forall>t. t \<in> fst ` set (topic_visibility r) \<longleftrightarrow>
          t \<in> set topics \<and> 1 \<le> topic_hits answers t)"
proof -
  assume a: "analyze_answers answers brand competitors personas topics = Inr r"
  let ?ab = "brand # competitors"
  let ?st = "tally ?ab personas topics answers (initial_counters ?ab personas topics)"
  let ?n = "if length answers = 0 then 1 else length answers"
  have pv: "persona_visibility r = visibility ?n (persona_counts ?st)"
    and tv: "topic_visibility r = visibility ?n (topic_counts ?st)"
    unfolding analyze_answers_Inr[OF a] by (simp_all add: build_report_def)
  have dp: "distinct (map fst (persona_counts ?st))"
    and dt: "distinct (map fst (topic_counts ?st))"
    by (simp_all only: persona_counts_tally topic_counts_tally distinct_counts)
  have p1: "p \<in> fst ` set (persona_visibility r) \<longleftrightarrow>
            (\<exists>c. map_of (persona_counts ?st) p = Some c \<and> 1 \<le> c)" for p
    unfolding pv by (rule visibility_keys[OF dp])
  have t1: "t \<in> fst ` set (topic_visibility r) \<longleftrightarrow>
            (\<exists>c. map_of (topic_counts ?st) t = Some c \<and> 1 \<le> c)" for t
    unfolding tv by (rule visibility_keys[OF dt])
  have p2: "p \<in> fst ` set (persona_visibility r) \<longleftrightarrow>
            p \<in> set personas \<and> 1 \<le> persona_hits answers p" for p
    unfolding p1 persona_counts_tally map_of_counts
    using count_list_pos[of personas p] by (auto simp: Suc_le_eq)
  have t2: "t \<in> fst ` set (topic_visibility r) \<longleftrightarrow>
            t \<in> set topics \<and> 1 \<le> topic_hits answers t" for t
    unfolding t1 topic_counts_tally map_of_counts
    using count_list_pos[of topics t] by (auto simp: Suc_le_eq)
  from count_answers_Inr[OF a] p1 t1 p2 t2 show ?thesis by blast
qed

theorem zero_hits_omitted_witness:
  "analyze_answers [Text ''Cloud roadmap'', Text ''nothing''] ''Acme'' [] [''CTO'']
       [''cloud cost'', ''pricing''] =
     Inr \<lparr>brand_visibility = 0, brand_mentions = [(''Acme'', 0)],
          persona_visibility = [(''CTO'', 50)], topic_visibility = [(''cloud cost'', 50)]\<rparr> \<and>
   1 \<le> persona_hits [Text ''Cloud roadmap'', Text ''nothing''] ''CTO'' \<and>
   \<not> 1 \<le> topic_hits [Text ''Cloud roadmap'', Text ''nothing''] ''pricing''"
proof -
  have h: "analyze_answers [Text ''Cloud roadmap'', Text ''nothing''] ''Acme'' [] [''CTO'']
       [''cloud cost'', ''pricing''] =
     Inr \<lparr>brand_visibility = 0, brand_mentions = [(''Acme'', 0)],
          persona_visibility = [(''CTO'', 50)], topic_visibility = [(''cloud cost'', 50)]\<rparr>"
    by code_simp
  from zero_hits_omitted [OF h]
  have p: "''CTO'' \<in> fst ` set (persona_visibility
             \<lparr>brand_visibility = 0, brand_mentions = [(''Acme'', 0)],
              persona_visibility = [(''CTO'', 50)],
              topic_visibility = [(''cloud cost'', 50)]\<rparr>) \<longleftrightarrow>
           ''CTO'' \<in> set [''CTO''] \<and>
           1 \<le> persona_hits [Text ''Cloud roadmap'', Text ''nothing''] ''CTO''"
    and t: "''pricing'' \<in> fst ` set (topic_visibility
             \<lparr>brand_visibility = 0, brand_mentions = [(''Acme'', 0)],
              persona_visibility = [(''CTO'', 50)],
              topic_visibility = [(''cloud cost'', 50)]\<rparr>) \<longleftrightarrow>
           ''pricing'' \<in> set [''cloud cost'', ''pricing''] \<and>
           1 \<le> topic_hits [Text ''Cloud roadmap'', Text ''nothing''] ''pricing''"
    by blast+
  from p t h show ?thesis by simp
qed

text \<open>
  Claim C7, as stated, fails for a persona name without a word: for the persona \<open>""\<close>
  and an answer that contains "roadmap" the claim counts a hit, while the scorer raises
  \<open>IndexError\<close>.
\<close>

theorem persona_without_word_counterexample:
  "str_in ''roadmap'' (normalize_text (Text ''the roadmap'')) \<and>
   analyze_answers [Text ''the roadmap''] ''Acme'' [] [''''] [] = Inl IndexError"
  by code_simp

text \<open>
  Claim C7, amended. For a persona whose name has a first word \<open>w\<close> (and a vocabulary
  in which every persona has one), each listing of the persona is counted once for every
  answer whose normalized text contains the lowercase name, the lowercase \<open>w\<close>, or one
  of "strategy", "roadmap", "architecture", "planning", "analysis", "decision", and for
  no other answer. In particular one answer that contains "roadmap" gives
  \<open>persona_visibility = {"Product Manager": 100}\<close> for \<open>personas = ["Product Manager"]\<close>.
\<close>

theorem persona_keyword_match:
  "(\<not> wordless personas \<longrightarrow> p \<in> set personas \<longrightarrow> str_split p = w # ws \<longrightarrow>
      (\<exists>st. count_answers answers brand competitors personas topics = Inr st \<and>
         map_of (persona_counts st) p =
           Some (count_list personas p *
                 length (filter (\<lambda>a.
                    str_in (str_lower p) (normalize_text a) \<or>
                    str_in (str_lower w) (normalize_text a) \<or>
                    str_in ''strategy'' (normalize_text a) \<or>
                    str_in ''roadmap'' (normalize_text a) \<or>
                    str_in ''architecture'' (normalize_text a) \<or>
                    str_in ''planning'' (normalize_text a) \<or>
                    str_in ''analysis'' (normalize_text a) \<or>
                    str_in ''decision'' (normalize_text a)) answers)))) \<and>
   (str_in ''roadmap'' (normalize_text a) \<longrightarrow>
      (\<exists>r. analyze_answers [a] brand competitors [''Product Manager''] topics = Inr r \<and>
           persona_visibility r = [(''Product Manager'', 100)]))"
proof (intro conjI impI)
  assume ok: "\<not> wordless personas" and p: "p \<in> set personas" and w: "str_split p = w # ws"
  let ?ab = "brand # competitors"
  let ?st = "tally ?ab personas topics answers (initial_counters ?ab personas topics)"
  have c: "count_answers answers brand competitors personas topics = Inr ?st"
    using ok by (simp add: count_answers_eq)
  have "map_of (persona_counts ?st) p = Some (count_list personas p * persona_hits answers p)"
    using p by (simp only: persona_counts_tally map_of_counts if_True)
  then have "map_of (persona_counts ?st) p =
           Some (count_list personas p *
                 length (filter (\<lambda>a.
                    str_in (str_lower p) (normalize_text a) \<or>
                    str_in (str_lower w) (normalize_text a) \<or>
                    str_in ''strategy'' (normalize_text a) \<or>
                    str_in ''roadmap'' (normalize_text a) \<or>
                    str_in ''architecture'' (normalize_text a) \<or>
                    str_in ''planning'' (normalize_text a) \<or>
                    str_in ''analysis'' (normalize_text a) \<or>
                    str_in ''decision'' (normalize_text a)) answers))"
    by (simp only: persona_hits_def persona_hit_words[OF w])
  with c show "\<exists>st. count_answers answers brand competitors personas topics = Inr st \<and>
         map_of (persona_counts st) p =
           Some (count_list personas p *
                 length (filter (\<lambda>a.
                    str_in (str_lower p) (normalize_text a) \<or>
                    str_in (str_lower w) (normalize_text a) \<or>
                    str_in ''strategy'' (normalize_text a) \<or>
                    str_in ''roadmap'' (normalize_text a) \<or>
                    str_in ''architecture'' (normalize_text a) \<or>
                    str_in ''planning'' (normalize_text a) \<or>
                    str_in ''analysis'' (normalize_text a) \<or>
                    str_in ''decision'' (normalize_text a)) answers))"
    by blast
next
  assume rd: "str_in ''roadmap'' (normalize_text a)"
  let ?pm = "''Product Manager''"
  have hit: "persona_hit (normalize_text a) ?pm"
    using rd by (simp add: persona_hit_words[OF split_product_manager])
  have nw: "\<not> wordless [?pm]"
    by (simp add: wordless_def split_product_manager)
  let ?st = "tally (brand # competitors) [?pm] topics [a]
               (initial_counters (brand # competitors) [?pm] topics)"
  have an: "analyze_answers [a] brand competitors [?pm] topics = Inr (build_report 1 ?st)"
    using nw by (simp add: analyze_answers_eq)
  have "persona_counts ?st = [(?pm, 1)]"
    using hit by (simp add: persona_counts_tally zero_dict_single persona_hits_def)
  then have "persona_visibility (build_report 1 ?st) = [(?pm, 100)]"
    by (simp add: build_report_def visibility_single percent_Suc_0)
  with an show "\<exists>r. analyze_answers [a] brand competitors [?pm] topics = Inr r \<and>
           persona_visibility r = [(?pm, 100)]"
    by blast
qed

theorem persona_keyword_match_witness:
  "\<not> wordless [''Product Manager''] \<and> ''Product Manager'' \<in> set [''Product Manager''] \<and>
   str_split ''Product Manager'' = ''Product'' # [''Manager''] \<and>
   str_in ''roadmap'' (normalize_text (Text ''Our ROADMAP is set'')) \<and>
   analyze_answers [Text ''Our ROADMAP is set''] ''Acme'' [] [''Product Manager''] [] =
     Inr \<lparr>brand_visibility = 0, brand_mentions = [(''Acme'', 0)],
          persona_visibility = [(''Product Manager'', 100)], topic_visibility = []\<rparr> \<and>
   (\<exists>st. count_answers [Text ''Our ROADMAP is set''] ''Acme'' [] [''Product Manager''] [] = Inr st \<and>
         map_of (persona_counts st) ''Product Manager'' = Some 1)"
proof -
  have 1: "\<not> wordless [''Product Manager'']" by code_simp
  have 2: "''Product Manager'' \<in> set [''Product Manager'']" by simp
  have 3: "str_split ''Product Manager'' = ''Product'' # [''Manager'']" by code_simp
  have 4: "str_in ''roadmap'' (normalize_text (Text ''Our ROADMAP is set''))" by code_simp
  have 5: "analyze_answers [Text ''Our ROADMAP is set''] ''Acme'' [] [''Product Manager''] [] =
     Inr \<lparr>brand_visibility = 0, brand_mentions = [(''Acme'', 0)],
          persona_visibility = [(''Product Manager'', 100)], topic_visibility = []\<rparr>"
    by code_simp
  have 6: "length (filter (\<lambda>a.
                    str_in (str_lower ''Product Manager'') (normalize_text a) \<or>
                    str_in (str_lower ''Product'') (normalize_text a) \<or>
                    str_in ''strategy'' (normalize_text a) \<or>
                    str_in ''roadmap'' (normalize_text a) \<or>
                    str_in ''architecture'' (normalize_text a) \<or>
                    str_in ''planning'' (normalize_text a) \<or>
                    str_in ''analysis'' (normalize_text a) \<or>
                    str_in ''decision'' (normalize_text a)) [Text ''Our ROADMAP is set'']) = 1"
    using 4 by simp
  from persona_keyword_match [of "[''Product Manager'']" "''Product Manager''" "''Product''"
      "[''Manager'']" "[Text ''Our ROADMAP is set'']" "''Acme''" "[]" "[]" "Text ''Our ROADMAP is set''"]
    1 2 3 4 5 6
  show ?thesis by simp
qed

text \<open>
  Claim C10. When \<open>personas\<close> contains the empty string and the batch is not empty,
  \<open>analyze_answers\<close> fails with \<open>IndexError\<close>: the first word of the empty name
  does not exist.
\<close>

theorem analyze_answers_empty_persona:
  "'''' \<in> set personas \<Longrightarrow> answers \<noteq> [] \<Longrightarrow>
   analyze_answers answers brand competitors personas topics = Inl IndexError"
  using str_split_empty by (auto simp: analyze_answers_eq wordless_def list_ex_iff)

theorem analyze_answers_empty_persona_witness:
  "'''' \<in> set [''CTO'', ''''] \<and> [Text ''hello''] \<noteq> [] \<and>
   analyze_answers [Text ''hello''] ''Acme'' [] [''CTO'', ''''] [] = Inl IndexError"
  using analyze_answers_empty_persona [of "[''CTO'', '''']" "[Text ''hello'']" "''Acme''" "[]" "[]"]
  by simp

section \<open>The claims about \<open>generate_report\<close>\<close>

text \<open>
  Claim C2. A payload without the key \<open>"brand"\<close> makes \<open>generate_report\<close> fail with
  the missing-key error for \<open>"brand"\<close> (Python's \<open>KeyError\<close>, the spec's
  MissingFieldError) before any call to the model-invocation layer: the trace is empty
  and the outside state is untouched. A payload with the key never fails with that
  error.
\<close>

theorem missing_brand_fails_first:
  "(p_brand payload = None \<longrightarrow>
      generate_report get_llm invoke payload w = (Inl (KeyError ''brand''), w, [])) \<and>
   (p_brand payload \<noteq> None \<longrightarrow>
      fst (generate_report get_llm invoke payload w) \<noteq> Inl (KeyError ''brand''))"
proof (intro conjI impI)
  assume "p_brand payload = None"
  then show "generate_report get_llm invoke payload w = (Inl (KeyError ''brand''), w, [])"
    by (simp add: generate_report_def)
next
  assume b: "p_brand payload \<noteq> None"
  show "fst (generate_report get_llm invoke payload w) \<noteq> Inl (KeyError ''brand'')"
  proof
    assume "fst (generate_report get_llm invoke payload w) = Inl (KeyError ''brand'')"
    then obtain env where
      "generate_report get_llm invoke payload w = (Inl (KeyError ''brand''), env)"
      by (cases "generate_report get_llm invoke payload w") auto
    from generate_report_Inl[OF this b] show False by simp
  qed
qed

theorem missing_brand_fails_first_witness:
  "p_brand \<lparr>p_brand = None, p_competitors = None, p_personas = None, p_topics = None,
            p_prompts = Some [Plain ''hello''], p_models = Some [''m1'', ''m2'']\<rparr> = None \<and>
   generate_report fake_get_llm fake_invoke
     \<lparr>p_brand = None, p_competitors = None, p_personas = None, p_topics = None,
      p_prompts = Some [Plain ''hello''], p_models = Some [''m1'', ''m2'']\<rparr> 0 =
     (Inl (KeyError ''brand''), 0, []) \<and>
   p_brand \<lparr>p_brand = Some ''Acme'', p_competitors = None, p_personas = None, p_topics = None,
            p_prompts = Some [Plain ''hello''], p_models = Some [''m1'', ''m2'']\<rparr> \<noteq> None \<and>
   fst (generate_report fake_get_llm fake_invoke
     \<lparr>p_brand = Some ''Acme'', p_competitors = None, p_personas = None, p_topics = None,
      p_prompts = Some [Plain ''hello''], p_models = Some [''m1'', ''m2'']\<rparr> 0) \<noteq>
     Inl (KeyError ''brand'')"
  using missing_brand_fails_first
      [where payload = "\<lparr>p_brand = None, p_competitors = None, p_personas = None,
         p_topics = None, p_prompts = Some [Plain ''hello''], p_models = Some [''m1'', ''m2'']\<rparr>"
       and get_llm = fake_get_llm and invoke = fake_invoke and w = 0]
    missing_brand_fails_first
      [where payload = "\<lparr>p_brand = Some ''Acme'', p_competitors = None, p_personas = None,
         p_topics = None, p_prompts = Some [Plain ''hello''], p_models = Some [''m1'', ''m2'']\<rparr>"
       and get_llm = fake_get_llm and invoke = fake_invoke and w = 0]
  by simp

text \<open>
  Claim C4. In every report that \<open>generate_report\<close> returns, each name of
  \<open>[brand] + competitors\<close> is a key of \<open>brand_mentions\<close> in every per-model report,
  and its count in the combined report is the sum of its counts in the per-model
  reports.
\<close>

theorem combined_mentions_sum:
  assumes "generate_report get_llm invoke payload w = (Inr res, env)"
      and "p_brand payload = Some brand"
      and "name \<in> set (brand # get_default (p_competitors payload) [])"
  shows "(\<forall>(m, r) \<in> set (per_model res). map_of (brand_mentions r) name \<noteq> None) \<and>
         map_of (brand_mentions (combined res)) name =
           Some (sum_list (map (\<lambda>(m, r). mention_count r name) (per_model res)))"
proof -
  let ?cs = "get_default (p_competitors payload) []"
  let ?ps = "get_default (p_personas payload) []"
  let ?ts = "get_default (p_topics payload) []"
  let ?models = "get_default (p_models payload) []"
  from generate_report_Inr[OF assms(1)] assms(2) obtain pbm abm ca where
    ml: "models_loop get_llm invoke pbm ?models [] (w, []) = (Inr abm, env)" and
    pl: "per_model_loop brand ?cs ?ps ?ts abm ([], []) = Inr (per_model res, ca)" and
    an: "analyze_answers ca brand ?cs ?ps ?ts = Inr (combined res)"
    by auto
  obtain w' tr' where env: "env = (w', tr')" by (cases env)
  have d: "distinct (map fst abm)"
    using models_loop_Inr[OF ml[unfolded env]] by simp
  from per_model_loop_Inr[OF d _ pl] obtain reports where
    ca: "ca = concat (map snd abm)" and
    pm: "per_model res = reports" and
    all: "list_all2 (\<lambda>(m, as) (m', r). m' = m \<and> analyze_answers as brand ?cs ?ps ?ts = Inr r)
            abm reports"
    by auto
  have present: "\<forall>(m, r) \<in> set (per_model res). map_of (brand_mentions r) name \<noteq> None"
    using reports_present[OF all assms(3)] pm by auto
  have "map_of (brand_mentions (combined res)) name =
          Some (count_list (brand # ?cs) name * mentions ca name)"
    using assms(3) by (simp only: map_of_brand_mentions[OF an] if_True)
  also have "count_list (brand # ?cs) name * mentions ca name =
          sum_list (map (\<lambda>(m, r). mention_count r name) (per_model res))"
    unfolding ca pm by (rule sum_mention_counts[OF all assms(3), symmetric])
  finally show ?thesis using present by blast
qed

theorem combined_mentions_sum_witness:
  "generate_report fake_get_llm fake_invoke
     \<lparr>p_brand = Some ''Acme'', p_competitors = Some [''Foo''], p_personas = None,
      p_topics = None,
      p_prompts = Some [Plain ''acme vs foo'', Tagged (Some ''m2'') (Some ''acme'')],
      p_models = Some [''m1'', ''m2'']\<rparr> 0 =
     (Inr \<lparr>per_model =
         [(''m1'', \<lparr>brand_visibility = 100, brand_mentions = [(''Acme'', 1), (''Foo'', 1)],
                   persona_visibility = [], topic_visibility = []\<rparr>),
          (''m2'', \<lparr>brand_visibility = 100, brand_mentions = [(''Acme'', 2), (''Foo'', 1)],
                   persona_visibility = [], topic_visibility = []\<rparr>)],
         combined = \<lparr>brand_visibility = 100, brand_mentions = [(''Acme'', 3), (''Foo'', 2)],
                     persona_visibility = [], topic_visibility = []\<rparr>\<rparr>,
      5, [GetLLM ''m1'', Invoke ''m1'' ''acme vs foo'', GetLLM ''m2'',
          Invoke ''m2'' ''acme vs foo'', Invoke ''m2'' ''acme'']) \<and>
   map_of [(''Acme'', 3 :: nat), (''Foo'', 2)] ''Acme'' =
     Some (sum_list (map (\<lambda>(m, r). mention_count r ''Acme'')
       [(''m1'', \<lparr>brand_visibility = 100, brand_mentions = [(''Acme'', 1), (''Foo'', 1)],
                 persona_visibility = [], topic_visibility = []\<rparr>),
        (''m2'', \<lparr>brand_visibility = 100, brand_mentions = [(''Acme'', 2), (''Foo'', 1)],
                 persona_visibility = [], topic_visibility = []\<rparr>)]))"
proof -
  let ?payload = "\<lparr>p_brand = Some ''Acme'', p_competitors = Some [''Foo''], p_personas = None,
      p_topics = None,
      p_prompts = Some [Plain ''acme vs foo'', Tagged (Some ''m2'') (Some ''acme'')],
      p_models = Some [''m1'', ''m2'']\<rparr>"
  have h: "generate_report fake_get_llm fake_invoke ?payload 0 =
     (Inr \<lparr>per_model =
         [(''m1'', \<lparr>brand_visibility = 100, brand_mentions = [(''Acme'', 1), (''Foo'', 1)],
                   persona_visibility = [], topic_visibility = []\<rparr>),
          (''m2'', \<lparr>brand_visibility = 100, brand_mentions = [(''Acme'', 2), (''Foo'', 1)],
                   persona_visibility = [], topic_visibility = []\<rparr>)],
         combined = \<lparr>brand_visibility = 100, brand_mentions = [(''Acme'', 3), (''Foo'', 2)],
                     persona_visibility = [], topic_visibility = []\<rparr>\<rparr>,
      5, [GetLLM ''m1'', Invoke ''m1'' ''acme vs foo'', GetLLM ''m2'',
          Invoke ''m2'' ''acme vs foo'', Invoke ''m2'' ''acme''])"
    by code_simp
  have b: "p_brand ?payload = Some ''Acme''" by simp
  have n: "''Acme'' \<in> set (''Acme'' # get_default (p_competitors ?payload) [])" by simp
  from combined_mentions_sum [OF h b n] h show ?thesis by simp
qed

text \<open>
  Claim C6. After the routing loop the queue of a model holds, in the order of the
  prompt list, the tagged prompts that name this model and the plain prompts (each
  plain prompt once per listing of the model in \<open>models\<close>) and nothing else. With one
  plain prompt and the models \<open>[m1, m2]\<close>, both queues hold the prompt, and when the
  model-invocation layer answers, \<open>per_model\<close> has entries for exactly \<open>m1\<close> and
  \<open>m2\<close>.
\<close>

theorem prompt_routing:
  "(group_prompts prompts models [] = Inr pbm \<longrightarrow>
      dd_get pbm m = concat (map (queue_share models m) prompts)) \<and>
   (responsive get_llm invoke \<longrightarrow> p_brand payload = Some brand \<longrightarrow>
    p_prompts payload = Some [Plain t] \<longrightarrow> p_models payload = Some [m1, m2] \<longrightarrow>
    \<not> wordless (get_default (p_personas payload) []) \<longrightarrow>
      (\<exists>pbm'. group_prompts [Plain t] [m1, m2] [] = Inr pbm' \<and>
         t \<in> set (dd_get pbm' m1) \<and> t \<in> set (dd_get pbm' m2) \<and>
         (m1 \<noteq> m2 \<longrightarrow> dd_get pbm' m1 = [t] \<and> dd_get pbm' m2 = [t])) \<and>
      (\<exists>res env. generate_report get_llm invoke payload w = (Inr res, env) \<and>
         fst ` set (per_model res) = {m1, m2}))"
proof (intro conjI impI)
  assume "group_prompts prompts models [] = Inr pbm"
  from group_prompts_queue[OF this, of m]
  show "dd_get pbm m = concat (map (queue_share models m) prompts)"
    by (simp add: dd_get_def)
next
  assume r: "responsive get_llm invoke" and b: "p_brand payload = Some brand"
    and p: "p_prompts payload = Some [Plain t]" and ms: "p_models payload = Some [m1, m2]"
    and nw: "\<not> wordless (get_default (p_personas payload) [])"
  obtain pbm' where g: "group_prompts [Plain t] [m1, m2] [] = Inr pbm'" by simp
  have q: "dd_get pbm' m = replicate (count_list [m1, m2] m) t" for m
    using group_prompts_queue[OF g, of m] by (simp add: dd_get_def)
  have q1: "t \<in> set (dd_get pbm' m1)" and q2: "t \<in> set (dd_get pbm' m2)"
    by (simp_all add: q)
  have q3: "m1 \<noteq> m2 \<longrightarrow> dd_get pbm' m1 = [t] \<and> dd_get pbm' m2 = [t]"
    by (simp add: q)
  from g q1 q2 q3
  show "\<exists>pbm'. group_prompts [Plain t] [m1, m2] [] = Inr pbm' \<and>
         t \<in> set (dd_get pbm' m1) \<and> t \<in> set (dd_get pbm' m2) \<and>
         (m1 \<noteq> m2 \<longrightarrow> dd_get pbm' m1 = [t] \<and> dd_get pbm' m2 = [t])"
    by blast
  have g': "group_prompts (get_default (p_prompts payload) [])
              (get_default (p_models payload) []) [] = Inr pbm'"
    using g p ms by (simp add: get_default_def)
  from generate_report_ok[OF r b g' nw] obtain res env where
    gr: "generate_report get_llm invoke payload w = (Inr res, env)"
    by blast
  have "fst ` set (per_model res) = {m \<in> set [m1, m2]. dd_get pbm' m \<noteq> []}"
    using per_model_keys[OF gr g'] ms by (simp add: get_default_def)
  also have "\<dots> = {m1, m2}" using q1 q2 by auto
  finally show "\<exists>res env. generate_report get_llm invoke payload w = (Inr res, env) \<and>
         fst ` set (per_model res) = {m1, m2}"
    using gr by blast
qed

theorem prompt_routing_witness:
  "group_prompts [Tagged (Some ''m2'') (Some ''q1''), Plain ''q2''] [''m1'', ''m2''] [] =
     Inr [(''m2'', [''q1'', ''q2'']), (''m1'', [''q2''])] \<and>
   dd_get [(''m2'', [''q1'', ''q2'']), (''m1'', [''q2''])] ''m2'' =
     concat (map (queue_share [''m1'', ''m2''] ''m2'')
       [Tagged (Some ''m2'') (Some ''q1''), Plain ''q2'']) \<and>
   responsive fake_get_llm fake_invoke \<and>
   \<not> wordless (get_default (p_personas
       \<lparr>p_brand = Some ''Acme'', p_competitors = None, p_personas = None, p_topics = None,
        p_prompts = Some [Plain ''hello''], p_models = Some [''m1'', ''m2'']\<rparr>) []) \<and>
   (\<exists>res env. generate_report fake_get_llm fake_invoke
       \<lparr>p_brand = Some ''Acme'', p_competitors = None, p_personas = None, p_topics = None,
        p_prompts = Some [Plain ''hello''], p_models = Some [''m1'', ''m2'']\<rparr> 0 = (Inr res, env) \<and>
      fst ` set (per_model res) = {''m1'', ''m2''})"
proof -
  let ?payload = "\<lparr>p_brand = Some ''Acme'', p_competitors = None, p_personas = None,
        p_topics = None, p_prompts = Some [Plain ''hello''], p_models = Some [''m1'', ''m2'']\<rparr>"
  have g: "group_prompts [Tagged (Some ''m2'') (Some ''q1''), Plain ''q2''] [''m1'', ''m2''] [] =
     Inr [(''m2'', [''q1'', ''q2'']), (''m1'', [''q2''])]"
    by code_simp
  have nw: "\<not> wordless (get_default (p_personas ?payload) [])"
    by (simp add: get_default_def wordless_def)
  note r = prompt_routing
      [where prompts = "[Tagged (Some ''m2'') (Some ''q1''), Plain ''q2'']"
       and models = "[''m1'', ''m2'']"
       and pbm = "[(''m2'', [''q1'', ''q2'']), (''m1'', [''q2''])]" and m = "''m2''"
       and get_llm = fake_get_llm and invoke = fake_invoke and payload = ?payload
       and brand = "''Acme''" and t = "''hello''" and ?m1.0 = "''m1''" and ?m2.0 = "''m2''"
       and w = 0]
  from r g fake_responsive nw show ?thesis by simp
qed

text \<open>
  Claim C9. In a report that \<open>generate_report\<close> returns, a model that is listed in
  \<open>models\<close> and whose queue is empty is not a key of \<open>per_model\<close>, although
  \<open>get_llm\<close> was called for it.
\<close>

theorem unprompted_model_absent:
  assumes "generate_report get_llm invoke payload w = (Inr res, w', tr)"
      and "group_prompts (get_default (p_prompts payload) [])
             (get_default (p_models payload) []) [] = Inr pbm"
      and "m \<in> set (get_default (p_models payload) [])"
      and "dd_get pbm m = []"
  shows "m \<notin> fst ` set (per_model res) \<and> GetLLM m \<in> set tr"
proof -
  let ?models = "get_default (p_models payload) []"
  from generate_report_Inr[OF assms(1)] assms(2) obtain brand abm ca where
    ml: "models_loop get_llm invoke pbm ?models [] (w, []) = (Inr abm, w', tr)" and
    pl: "per_model_loop brand (get_default (p_competitors payload) [])
           (get_default (p_personas payload) []) (get_default (p_topics payload) []) abm ([], [])
         = Inr (per_model res, ca)"
    by auto
  note ml' = models_loop_Inr[OF ml]
  have d: "distinct (map fst abm)" using ml' by simp
  from per_model_loop_Inr[OF d _ pl] obtain reports where
    pm: "per_model res = reports" and
    all: "list_all2 (\<lambda>(m, as) (m', r). m' = m \<and>
            analyze_answers as brand (get_default (p_competitors payload) [])
              (get_default (p_personas payload) []) (get_default (p_topics payload) []) = Inr r)
            abm reports"
    by auto
  have "map fst (per_model res) = map fst abm"
    unfolding pm by (rule reports_keys[OF all])
  then have "fst ` set (per_model res) = fst ` set abm"
    by (metis set_map)
  moreover have "m \<notin> fst ` set abm" using ml' assms(4) by simp
  moreover have "GetLLM m \<in> set tr" using ml' assms(3) by auto
  ultimately show ?thesis by simp
qed

theorem unprompted_model_absent_witness:
  "generate_report fake_get_llm fake_invoke
     \<lparr>p_brand = Some ''Acme'', p_competitors = None, p_personas = None, p_topics = None,
      p_prompts = Some [Tagged (Some ''m2'') (Some ''acme'')],
      p_models = Some [''m1'', ''m2'']\<rparr> 0 =
     (Inr \<lparr>per_model =
         [(''m2'', \<lparr>brand_visibility = 100, brand_mentions = [(''Acme'', 1)],
                   persona_visibility = [], topic_visibility = []\<rparr>)],
         combined = \<lparr>brand_visibility = 100, brand_mentions = [(''Acme'', 1)],
                     persona_visibility = [], topic_visibility = []\<rparr>\<rparr>,
      3, [GetLLM ''m1'', GetLLM ''m2'', Invoke ''m2'' ''acme'']) \<and>
   group_prompts [Tagged (Some ''m2'') (Some ''acme'')] [''m1'', ''m2''] [] =
     Inr [(''m2'', [''acme''])] \<and>
   dd_get [(''m2'', [''acme''])] ''m1'' = [] \<and>
   ''m1'' \<notin> fst ` set [(''m2'', \<lparr>brand_visibility = 100, brand_mentions = [(''Acme'', 1 :: nat)],
                   persona_visibility = [], topic_visibility = []\<rparr>)] \<and>
   GetLLM ''m1'' \<in> set [GetLLM ''m1'', GetLLM ''m2'', Invoke ''m2'' ''acme'']"
proof -
  let ?payload = "\<lparr>p_brand = Some ''Acme'', p_competitors = None, p_personas = None,
      p_topics = None, p_prompts = Some [Tagged (Some ''m2'') (Some ''acme'')],
      p_models = Some [''m1'', ''m2'']\<rparr>"
  have h: "generate_report fake_get_llm fake_invoke ?payload 0 =
     (Inr \<lparr>per_model =
         [(''m2'', \<lparr>brand_visibility = 100, brand_mentions = [(''Acme'', 1)],
                   persona_visibility = [], topic_visibility = []\<rparr>)],
         combined = \<lparr>brand_visibility = 100, brand_mentions = [(''Acme'', 1)],
                     persona_visibility = [], topic_visibility = []\<rparr>\<rparr>,
      3, [GetLLM ''m1'', GetLLM ''m2'', Invoke ''m2'' ''acme''])"
    by code_simp
  have g: "group_prompts (get_default (p_prompts ?payload) [])
             (get_default (p_models ?payload) []) [] = Inr [(''m2'', [''acme''])]"
    by code_simp
  have m: "''m1'' \<in> set (get_default (p_models ?payload) [])"
    by (simp add: get_default_def)
  have q: "dd_get [(''m2'', [''acme''])] ''m1'' = []"
    by (simp add: dd_get_def)
  from unprompted_model_absent [OF h g m q] h g q show ?thesis
    by (simp add: get_default_def)
qed

end
